theory Spec2Isabelle
  imports Complex_Main "HOL-Library.AList" "HOL-Library.Multiset"
begin

section \<open>Python values: errors, division, dictionaries\<close>

text \<open>
  The repository is Python. Numbers are modelled exactly: Python integers as \<open>int\<close> and
  Python floats as \<open>real\<close> (rounding of IEEE doubles is not modelled). Every operation
  of the source that can raise is a branch of the model: the result type is
  \<open>error + 'a\<close>, with \<open>Inl\<close> for the exception. The only exceptions reachable in the
  modelled code are \<open>ZeroDivisionError\<close> (true division \<open>/\<close> by zero), \<open>KeyError\<close>
  (a dictionary read at a missing key) and \<open>AttributeError\<close> (an attribute read on \<open>None\<close>).
\<close>

datatype error = ZeroDivisionError | KeyError | AttributeError

definition bindE :: "error + 'a \<Rightarrow> ('a \<Rightarrow> error + 'b) \<Rightarrow> error + 'b" where
  "bindE m f = (case m of Inl e \<Rightarrow> Inl e | Inr v \<Rightarrow> f v)"

text \<open>Python's true division \<open>x / y\<close>.\<close>

definition py_div :: "real \<Rightarrow> real \<Rightarrow> error + real" where
  "py_div x y = (if y = 0 then Inl ZeroDivisionError else Inr (x / y))"

text \<open>
  A Python \<open>dict\<close> from formula names to delays, as an association list in insertion
  order (the order in which \<open>for key in result\<close> iterates). \<open>d[k] = v\<close> is
  \<open>AList.update k v d\<close>: it overwrites in place or appends at the end. \<open>d[k]\<close> raises
  \<open>KeyError\<close> when the key is missing.
\<close>

type_synonym result_dict = "(string \<times> real) list"

definition dict_get :: "result_dict \<Rightarrow> string \<Rightarrow> error + real" where
  "dict_get d k = (case map_of d k of None \<Rightarrow> Inl KeyError | Some v \<Rightarrow> Inr v)"

definition dict_set :: "result_dict \<Rightarrow> string \<Rightarrow> real \<Rightarrow> result_dict" where
  "dict_set d k v = AList.update k v d"

section \<open>Formula engine: \<open>latency_calculation_cbs.py\<close>\<close>

record CBSLatencyCalculator =
  LINKSPEED :: real
  CMI :: real
  IFG :: int
  MIN_PACKET :: int
  MIN_PACKET_BITS :: int
  MIN_PACKET_BITS_W_IFG :: int
  MAX_PACKET :: int
  MAX_PACKET_BITS :: int
  MAX_PACKET_BITS_W_IFG :: int
  ctMaxFrame :: int

text \<open>\<open>CBSLatencyCalculator.__init__\<close>.\<close>

definition CBSLatencyCalculator_init ::
  "real \<Rightarrow> real \<Rightarrow> int \<Rightarrow> int \<Rightarrow> int \<Rightarrow> CBSLatencyCalculator" where
  "CBSLatencyCalculator_init linkspeed cmi min_packet_bytes max_packet_bytes ifg_bits =
     \<lparr> LINKSPEED = linkspeed,
       CMI = cmi,
       IFG = ifg_bits,
       MIN_PACKET = min_packet_bytes,
       MIN_PACKET_BITS = min_packet_bytes * 8,
       MIN_PACKET_BITS_W_IFG = min_packet_bytes * 8 + ifg_bits,
       MAX_PACKET = max_packet_bytes,
       MAX_PACKET_BITS = max_packet_bytes * 8,
       MAX_PACKET_BITS_W_IFG = max_packet_bytes * 8 + ifg_bits,
       ctMaxFrame = max_packet_bytes * 8 + ifg_bits \<rparr>"

text \<open>\<open>setCMI\<close>.\<close>

definition setCMI :: "CBSLatencyCalculator \<Rightarrow> real \<Rightarrow> CBSLatencyCalculator" where
  "setCMI self cmi = self\<lparr>CMI := cmi\<rparr>"

text \<open>\<open>baStandard\<close>: 802.1BA equation 6-1, with the negative catch-up term set to zero.\<close>

definition baStandard :: "CBSLatencyCalculator \<Rightarrow> real \<Rightarrow> real \<Rightarrow> error + real" where
  "baStandard self idleSlope streamMaxFrame =
     bindE (py_div (of_int (ctMaxFrame self)) (LINKSPEED self)) (\<lambda>tMaxPacket.
     bindE (py_div (streamMaxFrame - of_int (IFG self)) (LINKSPEED self)) (\<lambda>tStreamPacket.
     bindE (py_div (idleSlope * CMI self) (LINKSPEED self)) (\<lambda>delayA.
     bindE (py_div streamMaxFrame (LINKSPEED self)) (\<lambda>t.
     bindE (py_div ((delayA - t) * LINKSPEED self) idleSlope) (\<lambda>tClassA.
     let tClassA = (if tClassA < 0 then 0 else tClassA) in
     Inr (tMaxPacket + tClassA + tStreamPacket))))))"

text \<open>
  \<open>qStandardL3V1\<close>: the loop \<open>for i in range(nrInputLinks)\<close> with its state
  \<open>(fan_in_data, B0)\<close>; the body does not read \<open>i\<close>.
\<close>

fun qStandardL3V1_loop ::
  "CBSLatencyCalculator \<Rightarrow> real \<Rightarrow> real \<Rightarrow> nat \<Rightarrow> real \<times> real \<Rightarrow> error + (real \<times> real)" where
  "qStandardL3V1_loop self idleSlope classMaxFrame 0 st = Inr st"
| "qStandardL3V1_loop self idleSlope classMaxFrame (Suc n) (fan_in_data, B0) =
     (if B0 > 0 then
        (let Bi = idleSlope; W = LINKSPEED self - max B0 Bi in
         case py_div (of_int (ctMaxFrame self) * idleSlope * LINKSPEED self) (W * LINKSPEED self) of
           Inl e \<Rightarrow> Inl e
         | Inr a \<Rightarrow>
            (case py_div (classMaxFrame * LINKSPEED self) W of
               Inl e \<Rightarrow> Inl e
             | Inr b \<Rightarrow>
                qStandardL3V1_loop self idleSlope classMaxFrame n (fan_in_data + (a + b), B0 - Bi)))
      else qStandardL3V1_loop self idleSlope classMaxFrame n (fan_in_data + classMaxFrame, B0))"

definition qStandardL3V1 :: "CBSLatencyCalculator \<Rightarrow> real \<Rightarrow> real \<Rightarrow> int \<Rightarrow> error + real" where
  "qStandardL3V1 self idleSlope classMaxFrame nrInputLinks =
     bindE (py_div (of_int (ctMaxFrame self)) (LINKSPEED self)) (\<lambda>qDelayStand.
     bindE (qStandardL3V1_loop self idleSlope classMaxFrame (nat nrInputLinks) (0, idleSlope))
       (\<lambda>(fan_in_data, B0).
     bindE (py_div fan_in_data (LINKSPEED self)) (\<lambda>fan_in_delay.
     bindE (py_div classMaxFrame (LINKSPEED self)) (\<lambda>t.
     Inr (qDelayStand + fan_in_delay + t)))))"

text \<open>\<open>qStandardL3V2\<close>: the loop \<open>for Bi in inputIdleSlopes\<close>, state \<open>(fan_in_data, B0)\<close>.\<close>

fun qStandardL3V2_loop ::
  "CBSLatencyCalculator \<Rightarrow> real \<Rightarrow> real \<Rightarrow> real list \<Rightarrow> real \<times> real \<Rightarrow> error + (real \<times> real)" where
  "qStandardL3V2_loop self idleSlope classMaxFrame [] st = Inr st"
| "qStandardL3V2_loop self idleSlope classMaxFrame (Bi # rest) (fan_in_data, B0) =
     (if B0 > 0 then
        (let W = LINKSPEED self - max B0 Bi in
         case py_div (of_int (ctMaxFrame self) * idleSlope) W of
           Inl e \<Rightarrow> Inl e
         | Inr a \<Rightarrow>
            (case py_div (classMaxFrame * LINKSPEED self) W of
               Inl e \<Rightarrow> Inl e
             | Inr b \<Rightarrow>
                qStandardL3V2_loop self idleSlope classMaxFrame rest (fan_in_data + (a + b), B0 - Bi)))
      else qStandardL3V2_loop self idleSlope classMaxFrame rest (fan_in_data + classMaxFrame, B0))"

definition qStandardL3V2 ::
  "CBSLatencyCalculator \<Rightarrow> real \<Rightarrow> real \<Rightarrow> real list \<Rightarrow> error + real" where
  "qStandardL3V2 self idleSlope classMaxFrame inputIdleSlopes =
     bindE (py_div (of_int (ctMaxFrame self)) (LINKSPEED self)) (\<lambda>queueing_delay.
     bindE (qStandardL3V2_loop self idleSlope classMaxFrame inputIdleSlopes (0, idleSlope))
       (\<lambda>(fan_in_data, B0).
     bindE (py_div fan_in_data (LINKSPEED self)) (\<lambda>fan_in_delay.
     let permanent_delay = fan_in_delay in
     Inr (queueing_delay + fan_in_delay + permanent_delay))))"

text \<open>\<open>getMaxReservedPlenary\<close>: \<open>floor(self.CMI * idleSlope)\<close>, a Python integer.\<close>

definition getMaxReservedPlenary :: "CBSLatencyCalculator \<Rightarrow> real \<Rightarrow> int" where
  "getMaxReservedPlenary self idleSlope = \<lfloor>CMI self * idleSlope\<rfloor>"

text \<open>
  The local variable \<open>N\<close> of \<open>plenary100Mbit\<close>:
  \<open>min(nrInputLinks - 1, floor((maxReserved - streamMaxFrame) / self.MIN_PACKET_BITS_W_IFG))\<close>.
\<close>

definition plenary100Mbit_N :: "CBSLatencyCalculator \<Rightarrow> real \<Rightarrow> real \<Rightarrow> int \<Rightarrow> error + int" where
  "plenary100Mbit_N self idleSlope streamMaxFrame nrInputLinks =
     (let maxReserved = getMaxReservedPlenary self idleSlope in
      bindE (py_div (of_int maxReserved - streamMaxFrame) (of_int (MIN_PACKET_BITS_W_IFG self)))
        (\<lambda>q. Inr (min (nrInputLinks - 1) \<lfloor>q\<rfloor>)))"

definition plenary100Mbit :: "CBSLatencyCalculator \<Rightarrow> real \<Rightarrow> real \<Rightarrow> int \<Rightarrow> error + real" where
  "plenary100Mbit self idleSlope streamMaxFrame nrInputLinks =
     (let maxReserved = getMaxReservedPlenary self idleSlope in
      bindE (plenary100Mbit_N self idleSlope streamMaxFrame nrInputLinks) (\<lambda>N.
      bindE (if N > 0
             then bindE (py_div (of_int maxReserved - streamMaxFrame) (of_int N)) (\<lambda>q.
                    Inr (2 * (of_int maxReserved - streamMaxFrame) - of_int \<lceil>q\<rceil>))
             else Inr 0) (\<lambda>otherPackets.
      let qDelayOctets = of_int (ctMaxFrame self) + otherPackets + streamMaxFrame in
      py_div qDelayOctets (LINKSPEED self))))"

definition plenaryFasterMedia :: "CBSLatencyCalculator \<Rightarrow> error + real" where
  "plenaryFasterMedia self =
     bindE (py_div (of_int (ctMaxFrame self)) (LINKSPEED self)) (\<lambda>t. Inr (CMI self + t))"

definition plenaryFasterMediaV2 :: "CBSLatencyCalculator \<Rightarrow> real \<Rightarrow> real \<Rightarrow> error + real" where
  "plenaryFasterMediaV2 self idleSlope streamMaxFrame =
     (let maxReserved = getMaxReservedPlenary self idleSlope;
          N = LINKSPEED self / 100000000 in
      bindE (py_div (of_int maxReserved - streamMaxFrame) N) (\<lambda>q.
      let streamBits = \<lceil>q\<rceil>;
          streamBits = (if streamBits < 0 then 0 else streamBits);
          sendSlope = idleSlope - LINKSPEED self in
      bindE (py_div (of_int streamBits * sendSlope) (LINKSPEED self)) (\<lambda>loCredit.
      bindE (py_div (of_int (ctMaxFrame self) * idleSlope) (LINKSPEED self)) (\<lambda>hiCredit.
      bindE (py_div (LINKSPEED self * (loCredit - hiCredit)) sendSlope) (\<lambda>maxBurstSize.
      bindE (py_div (loCredit - hiCredit) sendSlope) (\<lambda>maxBurstTime.
      bindE (py_div maxBurstTime (CMI self)) (\<lambda>cycles.
      let totalBitsQueued = N * maxBurstSize + of_int \<lfloor>cycles\<rfloor> * streamMaxFrame in
      bindE (py_div totalBitsQueued idleSlope) (\<lambda>t1.
      bindE (py_div (of_int streamBits) (LINKSPEED self)) (\<lambda>t2.
      bindE (py_div (of_int (ctMaxFrame self)) (LINKSPEED self)) (\<lambda>t3.
      Inr (t1 - (maxBurstTime - t2) + t3)))))))))))"

text \<open>
  \<open>runAlgorithmsForPort\<close>, the value it returns. \<open>sorted(inputIdleSlopes)\<close> is \<open>sort\<close>
  (ascending, stable); \<open>inputIdleSlopesSorted.reverse()\<close> is \<open>rev\<close>. The dictionary is
  filled in the source's order.
\<close>

definition runAlgorithmsForPort ::
  "CBSLatencyCalculator \<Rightarrow> real \<Rightarrow> real \<Rightarrow> real \<Rightarrow> int \<Rightarrow> real list \<Rightarrow> error + result_dict" where
  "runAlgorithmsForPort self idleSlope streamMaxFrame classMaxFrame nrInputLinks inputIdleSlopes =
     (let inputIdleSlopesSorted = sort inputIdleSlopes;
          results = [] in
      bindE (baStandard self idleSlope streamMaxFrame) (\<lambda>r.
      let results = dict_set results ''baStandard'' r in
      bindE (qStandardL3V1 self idleSlope classMaxFrame nrInputLinks) (\<lambda>r.
      let results = dict_set results ''qStandardL3V1'' r in
      bindE (qStandardL3V2 self idleSlope classMaxFrame inputIdleSlopesSorted) (\<lambda>r.
      let results = dict_set results ''qStandardL3V2'' r in
      bindE (plenary100Mbit self idleSlope streamMaxFrame nrInputLinks) (\<lambda>r.
      let results = dict_set results ''plenary100Mbit'' r in
      bindE (plenaryFasterMedia self) (\<lambda>r.
      let results = dict_set results ''plenaryFasterMedia'' r in
      bindE (plenaryFasterMediaV2 self idleSlope streamMaxFrame) (\<lambda>r.
      let results = dict_set results ''plenaryFasterMediaV2'' r;
          inputIdleSlopesSorted = rev inputIdleSlopesSorted in
      bindE (qStandardL3V2 self idleSlope classMaxFrame inputIdleSlopesSorted) (\<lambda>r.
      let results = dict_set results ''qStandardL3V3'' r in
      Inr results))))))))"

definition getEmptyResultDict :: "CBSLatencyCalculator \<Rightarrow> result_dict" where
  "getEmptyResultDict self =
     [(''baStandard'', 0),
      (''qStandardL3V1'', 0),
      (''qStandardL3V2'', 0),
      (''plenary100Mbit'', 0),
      (''plenaryFasterMedia'', 0),
      (''plenaryFasterMediaV2'', 0),
      (''qStandardL3V3'', 0)]"

section \<open>Topology model: \<open>network_components.py\<close>\<close>

type_synonym node = string

record Flow =
  src :: node
  dst :: node
  size :: int
  deadline :: real
  period :: real
  priority :: int

record Link =
  src :: node
  dst :: node
  rate :: real
  delay :: real
  idleSlope :: real

text \<open>
  A \<open>Path\<close> object holds a reference to a Python list of links. Lists of links live in a
  store, because \<open>Path.__init__(self, src, dst, links=[])\<close> binds every path that is
  built without a \<open>links\<close> argument to one and the same list object, the default value
  of the parameter, which \<open>addLinks\<close> then extends in place. That object has the
  address \<open>Path_default_links\<close>.
\<close>

type_synonym ref = nat

type_synonym store = "ref \<Rightarrow> Link list"

record Path =
  src :: node
  dst :: node
  links :: ref

definition Path_default_links :: ref where
  "Path_default_links = 0"

text \<open>\<open>Path(src, dst)\<close>, with the default \<open>links\<close>.\<close>

definition Path_init :: "node \<Rightarrow> node \<Rightarrow> Path" where
  "Path_init s d = \<lparr> Path.src = s, Path.dst = d, Path.links = Path_default_links \<rparr>"

record Network =
  bridges :: "node list"
  nodes :: "node list"
  links :: "Link list"
  flows :: "Flow list"
  paths :: "Path list"
  IFG :: int

definition isLinkFor :: "Link \<Rightarrow> node \<Rightarrow> node \<Rightarrow> bool \<Rightarrow> bool" where
  "isLinkFor self s d ignoreDirection =
     (if ignoreDirection
      then (Link.src self = s \<and> Link.dst self = d) \<or> (Link.src self = d \<and> Link.dst self = s)
      else Link.src self = s \<and> Link.dst self = d)"

text \<open>\<open>Path.addLinks\<close>: returns early at the first link of the same ordered pair.\<close>

definition addLinks :: "store \<Rightarrow> Path \<Rightarrow> Link \<Rightarrow> store" where
  "addLinks h self link =
     (case find (\<lambda>l. isLinkFor l (Link.src link) (Link.dst link) False) (h (Path.links self)) of
        Some l \<Rightarrow> h
      | None \<Rightarrow> h(Path.links self := h (Path.links self) @ [link]))"

definition addBridge :: "Network \<Rightarrow> node \<Rightarrow> Network" where
  "addBridge self bridge =
     (if bridge \<notin> set (bridges self) then self\<lparr>bridges := bridges self @ [bridge]\<rparr> else self)"

definition addNode :: "Network \<Rightarrow> node \<Rightarrow> Network" where
  "addNode self n =
     (if n \<notin> set (nodes self) then self\<lparr>nodes := nodes self @ [n]\<rparr> else self)"

definition getLink :: "Network \<Rightarrow> node \<Rightarrow> node \<Rightarrow> Link option" where
  "getLink self s d = find (\<lambda>link. isLinkFor link s d False) (Network.links self)"

definition addLink :: "Network \<Rightarrow> node \<Rightarrow> node \<Rightarrow> real \<Rightarrow> real \<Rightarrow> real \<Rightarrow> Network" where
  "addLink self s d r dl sl =
     (case getLink self s d of
        None \<Rightarrow>
          self\<lparr>Network.links := Network.links self @
            [\<lparr> Link.src = s, Link.dst = d, rate = r, delay = dl, idleSlope = sl \<rparr>]\<rparr>
      | Some l \<Rightarrow> self)"

definition addBidirectionalLink ::
  "Network \<Rightarrow> node \<Rightarrow> node \<Rightarrow> real \<Rightarrow> real \<Rightarrow> real \<Rightarrow> Network" where
  "addBidirectionalLink self s d r dl sl = addLink (addLink self s d r dl sl) d s r dl sl"

definition lookupPath :: "Network \<Rightarrow> node \<Rightarrow> node \<Rightarrow> Path option" where
  "lookupPath self s d = find (\<lambda>path. Path.src path = s \<and> Path.dst path = d) (paths self)"

definition addPath :: "Network \<Rightarrow> Path \<Rightarrow> Network" where
  "addPath self path =
     (case lookupPath self (Path.src path) (Path.dst path) of
        None \<Rightarrow> self\<lparr>paths := paths self @ [path]\<rparr>
      | Some p \<Rightarrow> self)"

definition getFlow :: "Network \<Rightarrow> node \<Rightarrow> node \<Rightarrow> Flow option" where
  "getFlow self s d = find (\<lambda>flow. Flow.src flow = s \<and> Flow.dst flow = d) (flows self)"

definition addFlow :: "Network \<Rightarrow> Flow \<Rightarrow> Network" where
  "addFlow self flow =
     (case getFlow self (Flow.src flow) (Flow.dst flow) of
        None \<Rightarrow> self\<lparr>flows := flows self @ [flow]\<rparr>
      | Some f \<Rightarrow> self)"

definition getInputIdleSlopes :: "Network \<Rightarrow> Link \<Rightarrow> real list" where
  "getInputIdleSlopes self link =
     map idleSlope
       (filter (\<lambda>l. Link.src l \<noteq> Link.dst link \<and> Link.dst l = Link.src link) (Network.links self))"

definition findClassMaxFrame :: "Network \<Rightarrow> int" where
  "findClassMaxFrame self =
     fold (\<lambda>flow maxFrame. if Flow.size flow > maxFrame then Flow.size flow else maxFrame)
       (flows self) 0"

text \<open>
  \<open>existsFlowOnLink\<close> calls \<open>self.findPath\<close>, which \<open>Network\<close> does not define: the first
  iteration of its loop over the flows raises \<open>AttributeError\<close>. With no flow it returns
  \<open>False\<close>.
\<close>

definition existsFlowOnLink :: "Network \<Rightarrow> Link \<Rightarrow> error + bool" where
  "existsFlowOnLink self link =
     (case flows self of [] \<Rightarrow> Inr False | flow # rest \<Rightarrow> Inl AttributeError)"

fun getNumInputLinks_loop ::
  "Network \<Rightarrow> Link \<Rightarrow> bool \<Rightarrow> Link list \<Rightarrow> int \<Rightarrow> error + int" where
  "getNumInputLinks_loop self link onlyCountLinksWithFlows [] count' = Inr count'"
| "getNumInputLinks_loop self link onlyCountLinksWithFlows (l # ls) count' =
     (if Link.src l \<noteq> Link.dst link \<and> Link.dst l = Link.src link
      then (if \<not> onlyCountLinksWithFlows
            then getNumInputLinks_loop self link onlyCountLinksWithFlows ls (count' + 1)
            else (case existsFlowOnLink self l of
                    Inl e \<Rightarrow> Inl e
                  | Inr b \<Rightarrow>
                     (if b then getNumInputLinks_loop self link onlyCountLinksWithFlows ls (count' + 1)
                      else getNumInputLinks_loop self link onlyCountLinksWithFlows ls count')))
      else getNumInputLinks_loop self link onlyCountLinksWithFlows ls count')"

definition getNumInputLinks :: "Network \<Rightarrow> Link \<Rightarrow> bool \<Rightarrow> error + int" where
  "getNumInputLinks self link onlyCountLinksWithFlows =
     getNumInputLinks_loop self link onlyCountLinksWithFlows (Network.links self) 0"

subsection \<open>\<open>calculateShortestPath\<close>\<close>

text \<open>
  The inner loop \<open>for link in self.links\<close> of the search, for the node \<open>current\<close>. Its
  state is \<open>(unvisited, distances, previous)\<close>; \<open>visited\<close> already holds \<open>current\<close>.
  \<open>distances[current]\<close> raises \<open>KeyError\<close> when \<open>current\<close> has no distance.
\<close>

fun calculateShortestPath_links ::
  "Link list \<Rightarrow> node \<Rightarrow> node list \<Rightarrow> node list \<times> (node \<rightharpoonup> int) \<times> (node \<rightharpoonup> node)
     \<Rightarrow> error + (node list \<times> (node \<rightharpoonup> int) \<times> (node \<rightharpoonup> node))" where
  "calculateShortestPath_links [] current visited st = Inr st"
| "calculateShortestPath_links (link # ls) current visited (unvisited, distances, previous) =
     (if Link.src link = current \<and> Link.dst link \<notin> set visited
      then
        (let unvisited = (if Link.dst link \<notin> set unvisited
                          then unvisited @ [Link.dst link] else unvisited) in
         if distances (Link.dst link) = None
         then (case distances current of
                 None \<Rightarrow> Inl KeyError
               | Some dc \<Rightarrow>
                  calculateShortestPath_links ls current visited
                    (unvisited, distances(Link.dst link \<mapsto> dc + 1), previous(Link.dst link \<mapsto> current)))
         else calculateShortestPath_links ls current visited (unvisited, distances, previous))
      else calculateShortestPath_links ls current visited (unvisited, distances, previous))"

lemma calculateShortestPath_links_unvisited:
  "calculateShortestPath_links ls current visited (unvisited, distances, previous)
     = Inr (unvisited', distances', previous')
   \<Longrightarrow> \<exists>new. unvisited' = unvisited @ new \<and> set new \<subseteq> Link.dst ` set ls - set visited"
proof (induction ls arbitrary: unvisited distances previous)
  case Nil
  then show ?case by simp
next
  case (Cons link ls)
  show ?case
  proof (cases "Link.src link = current \<and> Link.dst link \<notin> set visited")
    case False
    with Cons.prems have
      "calculateShortestPath_links ls current visited (unvisited, distances, previous)
         = Inr (unvisited', distances', previous')"
      by auto
    from Cons.IH [OF this] show ?thesis by auto
  next
    case True
    define u1 where
      "u1 = (if Link.dst link \<notin> set unvisited then unvisited @ [Link.dst link] else unvisited)"
    from True Cons.prems obtain ds ps where
      "calculateShortestPath_links ls current visited (u1, ds, ps)
         = Inr (unvisited', distances', previous')"
      by (auto simp: u1_def Let_def split: if_splits option.splits)
    from Cons.IH [OF this] obtain new where
      new: "unvisited' = u1 @ new" "set new \<subseteq> Link.dst ` set ls - set visited"
      by blast
    show ?thesis
    proof (cases "Link.dst link \<notin> set unvisited")
      case True
      with new \<open>Link.src link = current \<and> Link.dst link \<notin> set visited\<close>
      have "unvisited' = unvisited @ (Link.dst link # new)
            \<and> set (Link.dst link # new) \<subseteq> Link.dst ` set (link # ls) - set visited"
        by (auto simp: u1_def)
      then show ?thesis by blast
    next
      case False
      with new have "unvisited' = unvisited @ new
            \<and> set new \<subseteq> Link.dst ` set (link # ls) - set visited"
        by (auto simp: u1_def)
      then show ?thesis by blast
    qed
  qed
qed

text \<open>
  The loop \<open>while unvisited\<close>: \<open>current = unvisited[0]\<close>, \<open>unvisited.remove(current)\<close>,
  \<open>visited.append(current)\<close>, then the inner loop. It returns the two dictionaries.
\<close>

function calculateShortestPath_while ::
  "Network \<Rightarrow> node list \<Rightarrow> node list \<Rightarrow> (node \<rightharpoonup> int) \<Rightarrow> (node \<rightharpoonup> node)
     \<Rightarrow> error + ((node \<rightharpoonup> int) \<times> (node \<rightharpoonup> node))" where
  "calculateShortestPath_while self unvisited visited distances previous =
     (case unvisited of
        [] \<Rightarrow> Inr (distances, previous)
      | current # rest \<Rightarrow>
         (case calculateShortestPath_links (Network.links self) current (visited @ [current])
                 (remove1 current unvisited, distances, previous) of
            Inl e \<Rightarrow> Inl e
          | Inr (unvisited', distances', previous') \<Rightarrow>
             calculateShortestPath_while self unvisited' (visited @ [current]) distances' previous'))"
  by pat_completeness auto

termination calculateShortestPath_while
proof (relation "measures
   [\<lambda>(self, unvisited, visited, distances, previous).
       card ((set unvisited \<union> Link.dst ` set (Network.links self)) - set visited),
    \<lambda>(self, unvisited, visited, distances, previous).
       length (filter (\<lambda>x. x \<in> set visited) unvisited)]", goal_cases)
  case 1
  show ?case by simp
next
  case (2 self unvisited visited distances previous current rest x2 unvisited' y distances' previous')
  let ?D = "Link.dst ` set (Network.links self)"
  from 2 have scan: "calculateShortestPath_links (Network.links self) current (visited @ [current])
      (rest, distances, previous) = Inr (unvisited', distances', previous')"
    by simp
  from calculateShortestPath_links_unvisited [OF scan] obtain new where
    new: "unvisited' = rest @ new" "set new \<subseteq> ?D - set (visited @ [current])"
    by blast
  have fin: "finite ((set unvisited \<union> ?D) - set visited)" by simp
  have sub: "(set unvisited' \<union> ?D) - set (visited @ [current])
               \<subseteq> (set unvisited \<union> ?D) - set visited"
    using new 2(1) by auto
  show ?case
  proof (cases "current \<in> set visited")
    case False
    then have "current \<in> (set unvisited \<union> ?D) - set visited" using 2(1) by simp
    moreover have "current \<notin> (set unvisited' \<union> ?D) - set (visited @ [current])" by simp
    ultimately have "(set unvisited' \<union> ?D) - set (visited @ [current])
               \<subset> (set unvisited \<union> ?D) - set visited"
      using sub by blast
    from psubset_card_mono [OF fin this] show ?thesis by simp
  next
    case True
    then have eq: "set (visited @ [current]) = set visited" by auto
    have "card ((set unvisited' \<union> ?D) - set (visited @ [current]))
            \<le> card ((set unvisited \<union> ?D) - set visited)"
      by (rule card_mono [OF fin sub])
    moreover have "filter (\<lambda>x. x \<in> set visited) new = []"
      using new(2) by (auto simp: filter_empty_conv)
    then have "length (filter (\<lambda>x. x \<in> set visited) unvisited')
            < length (filter (\<lambda>x. x \<in> set visited) unvisited)"
      using True new(1) 2(1) by simp
    then have "length (filter (\<lambda>x. x \<in> set (visited @ [current])) unvisited')
            < length (filter (\<lambda>x. x \<in> set visited) unvisited)"
      by (simp only: eq)
    ultimately show ?thesis by auto
  qed
qed

text \<open>
  The loop \<open>while current != src\<close> that collects the links backwards from \<open>dst\<close>. Nothing
  in the loop itself bounds it (a cycle in \<open>previous\<close> would keep it running), so not
  returning is the value \<open>None\<close>. \<open>previous[current]\<close> raises \<open>KeyError\<close> at a node without
  predecessor. \<open>getLink\<close> cannot return \<open>None\<close> here when \<open>previous\<close> comes from the search
  above (lemmas \<open>walk_never_AttributeError\<close> and \<open>calculateShortestPath_raises_only_KeyError\<close>
  below); the model gives that unreachable branch the value \<open>Inl AttributeError\<close>.
\<close>

partial_function (option) calculateShortestPath_walk ::
  "Network \<Rightarrow> (node \<rightharpoonup> node) \<Rightarrow> node \<Rightarrow> Path \<Rightarrow> node \<Rightarrow> store \<Rightarrow> (error + store) option" where
  "calculateShortestPath_walk self previous s path current h =
     (if current \<noteq> s
      then (case previous current of
              None \<Rightarrow> Some (Inl KeyError)
            | Some p \<Rightarrow>
               (case getLink self p current of
                  None \<Rightarrow> Some (Inl AttributeError)
                | Some link \<Rightarrow>
                   calculateShortestPath_walk self previous s path p (addLinks h path link)))
      else Some (Inr h))"

text \<open>
  \<open>calculateShortestPath\<close> returns the path and leaves the network (the new path is
  cached) and the store of link lists changed.
\<close>

definition calculateShortestPath ::
  "Network \<Rightarrow> store \<Rightarrow> node \<Rightarrow> node \<Rightarrow> (error + (Path \<times> Network \<times> store)) option" where
  "calculateShortestPath self h s d =
     (case lookupPath self s d of
        Some path \<Rightarrow> Some (Inr (path, self, h))
      | None \<Rightarrow>
         (case calculateShortestPath_while self [s] [] [s \<mapsto> 0] Map.empty of
            Inl e \<Rightarrow> Some (Inl e)
          | Inr (distances, previous) \<Rightarrow>
             (let path = Path_init s d in
              case calculateShortestPath_walk self previous s path d h of
                None \<Rightarrow> None
              | Some (Inl e) \<Rightarrow> Some (Inl e)
              | Some (Inr h') \<Rightarrow> Some (Inr (path, addPath self path, h')))))"

text \<open>
  Vocabulary of the claims about routing: a list of links, in travelling order, is a
  directed path from \<open>u\<close> to \<open>v\<close>.
\<close>

fun directed_path :: "node \<Rightarrow> Link list \<Rightarrow> node \<Rightarrow> bool" where
  "directed_path u [] v = (u = v)"
| "directed_path u (l # ls) v = (Link.src l = u \<and> directed_path (Link.dst l) ls v)"

section \<open>Latency orchestrator: \<open>network_latency_analysis.py\<close>\<close>

record NetworkLatencyAnalysis =
  network :: Network
  calculator :: CBSLatencyCalculator
  linkspeed :: real
  cmi :: real
  switchDelay :: real
  ifg :: int

text \<open>\<open>NetworkLatencyAnalysis.__init__\<close>.\<close>

definition NetworkLatencyAnalysis_init ::
  "real \<Rightarrow> real \<Rightarrow> real \<Rightarrow> int \<Rightarrow> int \<Rightarrow> int \<Rightarrow> NetworkLatencyAnalysis" where
  "NetworkLatencyAnalysis_init linkspeed' cmi' switch_delay min_packet_bytes max_packet_bytes ifg_bits =
     \<lparr> network = \<lparr> bridges = [], nodes = [], Network.links = [], flows = [], paths = [],
                    Network.IFG = ifg_bits \<rparr>,
       calculator =
         CBSLatencyCalculator_init linkspeed' cmi' min_packet_bytes max_packet_bytes ifg_bits,
       linkspeed = linkspeed',
       cmi = cmi',
       switchDelay = switch_delay,
       ifg = ifg_bits \<rparr>"

text \<open>
  \<open>calculateQueueDelayForLink\<close>. The parameter \<open>classMaxFrame\<close> has the default \<open>-1\<close>,
  which stands for "not given".
\<close>

definition calculateQueueDelayForLink ::
  "NetworkLatencyAnalysis \<Rightarrow> Link \<Rightarrow> Flow \<Rightarrow> int \<Rightarrow> error + result_dict" where
  "calculateQueueDelayForLink self link flow classMaxFrame =
     (if Link.src link \<in> set (nodes (network self))
      then Inr (getEmptyResultDict (calculator self))
      else
        (let classMaxFrame = (if classMaxFrame = - 1
                              then findClassMaxFrame (network self) * 8 + ifg self
                              else classMaxFrame);
             streamMaxFrame = Flow.size flow * 8 + ifg self;
             inputIdleSlopes = getInputIdleSlopes (network self) link in
         bindE (getNumInputLinks (network self) link False) (\<lambda>nrInputLinks.
         runAlgorithmsForPort (calculator self) (idleSlope link) (of_int streamMaxFrame)
           (of_int classMaxFrame) nrInputLinks inputIdleSlopes)))"

text \<open>
  The loop \<open>for key in result\<close> of \<open>calculateEndToEndDelayForFlow\<close>, over the keys of
  \<open>result\<close> in their order, with the dictionary \<open>flowDelay\<close> as state.
\<close>

fun calculateEndToEndDelayForFlow_keys ::
  "NetworkLatencyAnalysis \<Rightarrow> Link \<Rightarrow> real \<Rightarrow> result_dict \<Rightarrow> string list \<Rightarrow> result_dict
     \<Rightarrow> error + result_dict" where
  "calculateEndToEndDelayForFlow_keys self link transmissionDelay result [] flowDelay = Inr flowDelay"
| "calculateEndToEndDelayForFlow_keys self link transmissionDelay result (key # keys) flowDelay =
     (case dict_get flowDelay key of
        Inl e \<Rightarrow> Inl e
      | Inr old \<Rightarrow>
         (case dict_get result key of
            Inl e \<Rightarrow> Inl e
          | Inr r \<Rightarrow>
             (let flowDelay = dict_set flowDelay key (old + r + transmissionDelay) in
              if Link.src link \<in> set (bridges (network self))
              then (case dict_get flowDelay key of
                      Inl e \<Rightarrow> Inl e
                    | Inr cur \<Rightarrow>
                       calculateEndToEndDelayForFlow_keys self link transmissionDelay result keys
                         (dict_set flowDelay key (cur + switchDelay self)))
              else calculateEndToEndDelayForFlow_keys self link transmissionDelay result keys
                     flowDelay)))"

text \<open>The loop \<open>for link in path.links\<close>.\<close>

fun calculateEndToEndDelayForFlow_links ::
  "NetworkLatencyAnalysis \<Rightarrow> Flow \<Rightarrow> int \<Rightarrow> real \<Rightarrow> Link list \<Rightarrow> result_dict
     \<Rightarrow> error + result_dict" where
  "calculateEndToEndDelayForFlow_links self flow classMaxFrame transmissionDelay [] flowDelay =
     Inr flowDelay"
| "calculateEndToEndDelayForFlow_links self flow classMaxFrame transmissionDelay (link # ls) flowDelay =
     (case calculateQueueDelayForLink self link flow classMaxFrame of
        Inl e \<Rightarrow> Inl e
      | Inr result \<Rightarrow>
         (case calculateEndToEndDelayForFlow_keys self link transmissionDelay result
                 (map fst result) flowDelay of
            Inl e \<Rightarrow> Inl e
          | Inr flowDelay' \<Rightarrow>
             calculateEndToEndDelayForFlow_links self flow classMaxFrame transmissionDelay ls
               flowDelay'))"

text \<open>
  \<open>calculateEndToEndDelayForFlow\<close> reads the links of the cached path from the store. The
  transmission delay is computed before the path is looked up.
\<close>

definition calculateEndToEndDelayForFlow ::
  "NetworkLatencyAnalysis \<Rightarrow> store \<Rightarrow> Flow \<Rightarrow> error + result_dict" where
  "calculateEndToEndDelayForFlow self h flow =
     (let classMaxFrame = findClassMaxFrame (network self) * 8 + ifg self;
          flowDelay = getEmptyResultDict (calculator self) in
      bindE (py_div (of_int (Flow.size flow * 8 + ifg self)) (linkspeed self))
        (\<lambda>transmissionDelay.
      case lookupPath (network self) (Flow.src flow) (Flow.dst flow) of
        None \<Rightarrow> Inr flowDelay
      | Some path \<Rightarrow>
          calculateEndToEndDelayForFlow_links self flow classMaxFrame transmissionDelay
            (h (Path.links path)) flowDelay))"

section \<open>Calls as state transformers\<close>

text \<open>
  The functions above give the value a call returns. Two claims are about what a call
  leaves unchanged, so these two calls are also given with the state they leave behind.

  \<open>runAlgorithmsForPort\<close> receives its list of idle slopes by reference. Lists of numbers
  live in a heap with an allocation pointer: \<open>sorted(inputIdleSlopes)\<close> allocates a new
  list, and \<open>inputIdleSlopesSorted.reverse()\<close> overwrites that new list in place. No
  formula assigns to an attribute of \<open>self\<close>, so the calculator comes back as it went in.
  When a formula raises, the heap is the one at that moment.
\<close>

record pyheap =
  next_ref :: ref
  cells :: "ref \<Rightarrow> real list"

definition alloc :: "pyheap \<Rightarrow> real list \<Rightarrow> ref \<times> pyheap" where
  "alloc h xs = (next_ref h, \<lparr> next_ref = next_ref h + 1, cells = (cells h)(next_ref h := xs) \<rparr>)"

definition runAlgorithmsForPort_call ::
  "CBSLatencyCalculator \<Rightarrow> pyheap \<Rightarrow> real \<Rightarrow> real \<Rightarrow> real \<Rightarrow> int \<Rightarrow> ref
     \<Rightarrow> (CBSLatencyCalculator \<times> pyheap) \<times> (error + result_dict)" where
  "runAlgorithmsForPort_call self h slope streamMaxFrame classMaxFrame nrInputLinks inputIdleSlopes =
     (let (inputIdleSlopesSorted, h1) = alloc h (sort (cells h inputIdleSlopes));
          results = [] in
      case
        bindE (baStandard self slope streamMaxFrame) (\<lambda>r.
        let results = dict_set results ''baStandard'' r in
        bindE (qStandardL3V1 self slope classMaxFrame nrInputLinks) (\<lambda>r.
        let results = dict_set results ''qStandardL3V1'' r in
        bindE (qStandardL3V2 self slope classMaxFrame (cells h1 inputIdleSlopesSorted)) (\<lambda>r.
        let results = dict_set results ''qStandardL3V2'' r in
        bindE (plenary100Mbit self slope streamMaxFrame nrInputLinks) (\<lambda>r.
        let results = dict_set results ''plenary100Mbit'' r in
        bindE (plenaryFasterMedia self) (\<lambda>r.
        let results = dict_set results ''plenaryFasterMedia'' r in
        bindE (plenaryFasterMediaV2 self slope streamMaxFrame) (\<lambda>r.
        let results = dict_set results ''plenaryFasterMediaV2'' r in
        Inr results))))))
      of
        Inl e \<Rightarrow> ((self, h1), Inl e)
      | Inr results \<Rightarrow>
         (let h2 = h1\<lparr>cells := (cells h1)
                      (inputIdleSlopesSorted := rev (cells h1 inputIdleSlopesSorted))\<rparr> in
          ((self, h2),
           bindE (qStandardL3V2 self slope classMaxFrame (cells h2 inputIdleSlopesSorted)) (\<lambda>r.
           let results = dict_set results ''qStandardL3V3'' r in
           Inr results))))"

text \<open>
  \<open>calculateEndToEndDelayForFlow\<close> and everything it calls (\<open>findClassMaxFrame\<close>,
  \<open>getEmptyResultDict\<close>, \<open>lookupPath\<close>, \<open>calculateQueueDelayForLink\<close>) assign to no
  attribute of the analysis, its network or its calculator, and append to no list of
  links; \<open>flowDelay\<close> and \<open>result\<close> are dictionaries created during the call.
\<close>

definition calculateEndToEndDelayForFlow_call ::
  "NetworkLatencyAnalysis \<times> store \<Rightarrow> Flow
     \<Rightarrow> (NetworkLatencyAnalysis \<times> store) \<times> (error + result_dict)" where
  "calculateEndToEndDelayForFlow_call st flow =
     (case st of (self, h) \<Rightarrow> ((self, h), calculateEndToEndDelayForFlow self h flow))"

section \<open>Invariants of the shortest-path search\<close>

text \<open>
  The predicates used to verify \<open>calculateShortestPath\<close>. A recorded distance is a lower
  bound of the length of every directed path from the source; every node with a distance,
  the source apart, has a predecessor one step closer and a link from it, and only nodes
  with a distance have a predecessor; and the links leaving a set of nodes all lead to
  nodes with a distance.
\<close>

definition dist_lower_bound :: "Network \<Rightarrow> node \<Rightarrow> (node \<rightharpoonup> int) \<Rightarrow> bool" where
  "dist_lower_bound net s distances =
     (\<forall>v n ls. distances v = Some n \<longrightarrow> set ls \<subseteq> set (Network.links net)
        \<longrightarrow> directed_path s ls v \<longrightarrow> n \<le> int (length ls))"

definition pred_tree :: "Network \<Rightarrow> node \<Rightarrow> (node \<rightharpoonup> int) \<Rightarrow> (node \<rightharpoonup> node) \<Rightarrow> bool" where
  "pred_tree net s distances previous =
     (distances s = Some 0
      \<and> (\<forall>v n. distances v = Some n \<longrightarrow> 0 \<le> n)
      \<and> (\<forall>v n. distances v = Some n \<longrightarrow> v \<noteq> s \<longrightarrow>
            (\<exists>u l. previous v = Some u \<and> l \<in> set (Network.links net)
                 \<and> Link.src l = u \<and> Link.dst l = v \<and> distances u = Some (n - 1)))
      \<and> (\<forall>v. previous v \<noteq> None \<longrightarrow> distances v \<noteq> None))"

definition edge_closed :: "Network \<Rightarrow> node set \<Rightarrow> (node \<rightharpoonup> int) \<Rightarrow> bool" where
  "edge_closed net V distances =
     (\<forall>l \<in> set (Network.links net). Link.src l \<in> V \<longrightarrow> distances (Link.dst l) \<noteq> None)"

text \<open>Between two iterations of the loop \<open>while unvisited\<close>.\<close>

definition search_inv ::
  "Network \<Rightarrow> node \<Rightarrow> node list \<Rightarrow> node list \<Rightarrow> (node \<rightharpoonup> int) \<Rightarrow> (node \<rightharpoonup> node) \<Rightarrow> bool" where
  "search_inv net s unvisited visited distances previous =
     (dom distances = set visited \<union> set unvisited
      \<and> dist_lower_bound net s distances
      \<and> pred_tree net s distances previous
      \<and> (\<exists>k. (\<forall>x \<in> set visited. \<exists>n. distances x = Some n \<and> n \<le> k)
             \<and> (\<forall>y \<in> set unvisited. \<exists>n. distances y = Some n \<and> k \<le> n \<and> n \<le> k + 1))
      \<and> sorted (map (\<lambda>y. the (distances y)) unvisited)
      \<and> edge_closed net (set visited) distances)"

text \<open>During the loop over the links, for the node \<open>current\<close> at distance \<open>dc\<close>.\<close>

definition scan_inv ::
  "Network \<Rightarrow> node \<Rightarrow> node \<Rightarrow> int \<Rightarrow> node list
     \<Rightarrow> node list \<times> (node \<rightharpoonup> int) \<times> (node \<rightharpoonup> node) \<Rightarrow> bool" where
  "scan_inv net s current dc visited st =
     (case st of (unvisited, distances, previous) \<Rightarrow>
        dom distances = set visited \<union> set unvisited
        \<and> dist_lower_bound net s distances
        \<and> pred_tree net s distances previous
        \<and> current \<in> set visited \<and> distances current = Some dc
        \<and> (\<forall>x \<in> set visited. \<exists>n. distances x = Some n \<and> n \<le> dc)
        \<and> (\<forall>y \<in> set unvisited. \<exists>n. distances y = Some n \<and> dc \<le> n \<and> n \<le> dc + 1)
        \<and> sorted (map (\<lambda>y. the (distances y)) unvisited)
        \<and> edge_closed net (set visited - {current}) distances)"

section \<open>The seven formula names\<close>

definition formula_names :: "string list" where
  "formula_names = [''baStandard'', ''qStandardL3V1'', ''qStandardL3V2'', ''plenary100Mbit'',
                    ''plenaryFasterMedia'', ''plenaryFasterMediaV2'', ''qStandardL3V3'']"

section \<open>Sequences of registrations\<close>

text \<open>
  The five registration calls of \<open>Network\<close> as data, so that a claim can speak about
  every sequence of them, and the two uniqueness invariants of the data model.
\<close>

datatype registration =
    AddNode node
  | AddBridge node
  | AddLink node node real real real
  | AddBidirectionalLink node node real real real
  | AddFlow Flow

fun register :: "Network \<Rightarrow> registration \<Rightarrow> Network" where
  "register net (AddNode n) = addNode net n"
| "register net (AddBridge b) = addBridge net b"
| "register net (AddLink s d r dl sl) = addLink net s d r dl sl"
| "register net (AddBidirectionalLink s d r dl sl) = addBidirectionalLink net s d r dl sl"
| "register net (AddFlow f) = addFlow net f"

definition unique_links :: "Network \<Rightarrow> bool" where
  "unique_links net = distinct (map (\<lambda>l. (Link.src l, Link.dst l)) (Network.links net))"

definition unique_flows :: "Network \<Rightarrow> bool" where
  "unique_flows net = distinct (map (\<lambda>f. (Flow.src f, Flow.dst f)) (flows net))"

section \<open>Concrete configurations\<close>

text \<open>
  The configurations at which the theorems below are evaluated. \<open>ex_calculator\<close> is the
  calculator of both scenarios of the repository: 100 Mbit/s, CMI 125 microseconds,
  frames of 64 to 1526 bytes, an interframe gap of 96 bits.
\<close>

definition ex_calculator :: CBSLatencyCalculator where
  "ex_calculator = CBSLatencyCalculator_init 100000000 (125 / 1000000) 64 1526 96"

definition ex_flow :: Flow where
  "ex_flow = \<lparr> Flow.src = ''N0'', Flow.dst = ''N2'', size = 750, deadline = 1 / 1000,
               period = 1 / 1000, priority = 7 \<rparr>"

definition ex_link :: "node \<Rightarrow> node \<Rightarrow> real \<Rightarrow> Link" where
  "ex_link s d sl = \<lparr> Link.src = s, Link.dst = d, rate = 100000000, delay = 8 / 1000000,
                      idleSlope = sl \<rparr>"

text \<open>A network without flows: one bridge, one end station, the two links between them.\<close>

definition ex_no_flows :: NetworkLatencyAnalysis where
  "ex_no_flows =
     \<lparr> network = \<lparr> bridges = [''S0''], nodes = [''N2''],
                    Network.links = [ex_link ''S0'' ''N2'' 48832000, ex_link ''N2'' ''S0'' 48832000],
                    flows = [], paths = [], Network.IFG = 96 \<rparr>,
       calculator = ex_calculator,
       linkspeed = 100000000, cmi = 125 / 1000000, switchDelay = 0, ifg = 96 \<rparr>"

text \<open>
  A network with one flow and its cached two-hop path: end stations \<open>N0\<close> and \<open>N2\<close>,
  the bridge \<open>S0\<close>, both directions of both cables at idle slope 48832000, and a switch
  delay of 8 microseconds. The list of the path's links is at address 1 of the store.
\<close>

definition ex_analysis :: NetworkLatencyAnalysis where
  "ex_analysis =
     \<lparr> network = \<lparr> bridges = [''S0''], nodes = [''N0'', ''N2''],
                    Network.links = [ex_link ''N0'' ''S0'' 48832000, ex_link ''S0'' ''N0'' 48832000,
                                     ex_link ''N2'' ''S0'' 48832000, ex_link ''S0'' ''N2'' 48832000],
                    flows = [ex_flow],
                    paths = [\<lparr> Path.src = ''N0'', Path.dst = ''N2'', Path.links = 1 \<rparr>],
                    Network.IFG = 96 \<rparr>,
       calculator = ex_calculator,
       linkspeed = 100000000, cmi = 125 / 1000000, switchDelay = 8 / 1000000, ifg = 96 \<rparr>"

definition ex_store :: store where
  "ex_store = (\<lambda>p. [])(1 := [ex_link ''N0'' ''S0'' 48832000, ex_link ''S0'' ''N2'' 48832000])"

section \<open>Properties\<close>

subsection \<open>Evaluation of the error plumbing\<close>

lemma bindE_Inr [simp]: "bindE (Inr v) f = f v"
  by (simp add: bindE_def)

lemma bindE_Inl [simp]: "bindE (Inl e) f = Inl e"
  by (simp add: bindE_def)

lemma py_div_nonzero [simp]: "y \<noteq> 0 \<Longrightarrow> py_div x y = Inr (x / y)"
  by (simp add: py_div_def)

lemma py_div_zero [simp]: "py_div x 0 = Inl ZeroDivisionError"
  by (simp add: py_div_def)

subsection \<open>Standard-BA\<close>

text \<open>
  C3. For every idle slope \<open>> 0\<close> and every stream frame size, \<open>baStandard\<close> is
  \<open>ctMaxFrame/linkspeed + max(0, (idleSlope*CMI/linkspeed - streamMaxFrame/linkspeed)
  * linkspeed/idleSlope) + (streamMaxFrame - IFG)/linkspeed\<close>; when the catch-up term
  \<open>(idleSlope*CMI - streamMaxFrame)/idleSlope\<close> is negative, zero takes its place. The
  expression divides by the link speed: at link speed zero the source raises
  \<open>ZeroDivisionError\<close>, as evaluating the expression does.
\<close>

theorem baStandard_formula:
  assumes "0 < slope"
  shows "baStandard self slope streamMaxFrame =
           (if LINKSPEED self = 0 then Inl ZeroDivisionError
            else Inr (of_int (ctMaxFrame self) / LINKSPEED self
                      + max 0 ((slope * CMI self / LINKSPEED self
                                - streamMaxFrame / LINKSPEED self) * LINKSPEED self / slope)
                      + (streamMaxFrame - of_int (CBSLatencyCalculator.IFG self)) / LINKSPEED self))
         \<and> (LINKSPEED self \<noteq> 0
              \<and> (slope * CMI self - streamMaxFrame) / slope < 0
            \<longrightarrow> baStandard self slope streamMaxFrame =
                  Inr (of_int (ctMaxFrame self) / LINKSPEED self + 0
                       + (streamMaxFrame - of_int (CBSLatencyCalculator.IFG self)) / LINKSPEED self))"
proof (cases "LINKSPEED self = 0")
  case True
  then show ?thesis by (simp add: baStandard_def)
next
  case False
  have eq: "(slope * CMI self / LINKSPEED self - streamMaxFrame / LINKSPEED self)
              * LINKSPEED self / slope
            = (slope * CMI self - streamMaxFrame) / slope"
    using False assms by (simp add: field_simps)
  from False assms show ?thesis
    unfolding eq baStandard_def by (simp add: eq max_def)
qed

theorem baStandard_formula_witness:
  "(0::real) < 48832000
   \<and> baStandard (CBSLatencyCalculator_init 100000000 (125 / 1000000) 64 1526 96) 48832000 6096
       = Inr (12304 / 100000000 + 8 / 48832000 + 6000 / 100000000)
   \<and> baStandard (CBSLatencyCalculator_init 100000000 (125 / 1000000) 64 1526 96) 6144000 6096
       = Inr (12304 / 100000000 + 0 + 6000 / 100000000)"
  using baStandard_formula [of 48832000 "CBSLatencyCalculator_init 100000000 (125 / 1000000) 64 1526 96" 6096]
        baStandard_formula [of 6144000 "CBSLatencyCalculator_init 100000000 (125 / 1000000) 64 1526 96" 6096]
  by (simp add: CBSLatencyCalculator_init_def)

subsection \<open>Plenary-100Mbit\<close>

text \<open>
  C6, as stated, fails: the \<open>min\<close> with \<open>nrInputLinks - 1\<close> does not make \<open>N\<close>
  non-negative. With the default calculator, idle slope 48832000, a stream frame of 6096
  bits and no input link, \<open>N\<close> is \<open>-1\<close>.
\<close>

theorem plenary100Mbit_N_negative:
  "plenary100Mbit_N (CBSLatencyCalculator_init 100000000 (125 / 1000000) 64 1526 96)
     48832000 6096 0 = Inr (- 1)
   \<and> \<not> (0::int) \<le> - 1"
  by (simp add: plenary100Mbit_N_def CBSLatencyCalculator_init_def getMaxReservedPlenary_def)

text \<open>
  C6, amended. \<open>N\<close> is \<open>min(nrInputLinks - 1, floor((maxReserved - streamMaxFrame) /
  minFrameWithIFG))\<close> and may be negative; the guard \<open>if N > 0\<close> is what keeps the extra
  packets out: whenever \<open>N \<le> 0\<close> the delay is \<open>(ctMaxFrame + streamMaxFrame) / linkspeed\<close>
  (\<open>ZeroDivisionError\<close> at link speed zero).
\<close>

theorem plenary100Mbit_no_extra_packets:
  assumes "plenary100Mbit_N self slope streamMaxFrame nrInputLinks = Inr N"
    and "N \<le> 0"
  shows "N = min (nrInputLinks - 1)
               \<lfloor>(of_int (getMaxReservedPlenary self slope) - streamMaxFrame)
                  / of_int (MIN_PACKET_BITS_W_IFG self)\<rfloor>
         \<and> plenary100Mbit self slope streamMaxFrame nrInputLinks =
             (if LINKSPEED self = 0 then Inl ZeroDivisionError
              else Inr ((of_int (ctMaxFrame self) + streamMaxFrame) / LINKSPEED self))"
  using assms
  by (auto simp: plenary100Mbit_def plenary100Mbit_N_def Let_def py_div_def bindE_def
           split: if_splits)

theorem plenary100Mbit_no_extra_packets_witness:
  "plenary100Mbit_N (CBSLatencyCalculator_init 100000000 (125 / 1000000) 64 1526 96)
     48832000 6096 0 = Inr (- 1)
   \<and> (- 1 :: int) \<le> 0
   \<and> plenary100Mbit (CBSLatencyCalculator_init 100000000 (125 / 1000000) 64 1526 96)
        48832000 6096 0 = Inr ((12304 + 6096) / 100000000)"
  using plenary100Mbit_no_extra_packets
    [of "CBSLatencyCalculator_init 100000000 (125 / 1000000) 64 1526 96" 48832000 6096 0 "- 1"]
  by (simp add: plenary100Mbit_N_def CBSLatencyCalculator_init_def getMaxReservedPlenary_def)

subsection \<open>A network without flows\<close>

text \<open>
  C7, as stated, fails: with no flow registered, a queue-delay query for a registered
  link that leaves a bridge still runs the seven formulas, and for instance
  \<open>plenaryFasterMedia\<close> is \<open>CMI + ctMaxFrame/linkspeed\<close>, which is not zero.
\<close>

theorem zero_flow_queue_delay_nonzero:
  "flows (network ex_no_flows) = []
   \<and> ex_link ''S0'' ''N2'' 48832000 \<in> set (Network.links (network ex_no_flows))
   \<and> bindE (calculateQueueDelayForLink ex_no_flows (ex_link ''S0'' ''N2'' 48832000) ex_flow (- 1))
        (\<lambda>r. dict_get r ''plenaryFasterMedia'') = Inr (125 / 1000000 + 12304 / 100000000)
   \<and> (125 / 1000000 + 12304 / 100000000 :: real) \<noteq> 0"
  by (simp add: ex_no_flows_def ex_link_def ex_flow_def ex_calculator_def
        calculateQueueDelayForLink_def findClassMaxFrame_def getInputIdleSlopes_def
        getNumInputLinks_def runAlgorithmsForPort_def baStandard_def qStandardL3V1_def
        qStandardL3V2_def plenary100Mbit_def plenary100Mbit_N_def plenaryFasterMedia_def
        plenaryFasterMediaV2_def getMaxReservedPlenary_def CBSLatencyCalculator_init_def
        dict_set_def dict_get_def Let_def)

text \<open>
  C7, amended. For every network whose flow registry is empty, \<open>findClassMaxFrame\<close> is 0;
  a queue-delay query returns the map with all seven values zero when the source of the
  link is a registered end node (\<open>link.src in self.network.nodes\<close>), for any flow and any
  \<open>classMaxFrame\<close> argument.
\<close>

theorem zero_flow_network:
  assumes "flows (network self) = []"
  shows "findClassMaxFrame (network self) = 0
         \<and> (Link.src link \<in> set (nodes (network self)) \<longrightarrow>
              calculateQueueDelayForLink self link flow classMaxFrame =
                Inr [(''baStandard'', 0), (''qStandardL3V1'', 0), (''qStandardL3V2'', 0),
                     (''plenary100Mbit'', 0), (''plenaryFasterMedia'', 0),
                     (''plenaryFasterMediaV2'', 0), (''qStandardL3V3'', 0)])"
  using assms
  by (simp add: findClassMaxFrame_def calculateQueueDelayForLink_def getEmptyResultDict_def)

theorem zero_flow_network_witness:
  "flows (network ex_no_flows) = []
   \<and> findClassMaxFrame (network ex_no_flows) = 0
   \<and> Link.src (ex_link ''N2'' ''S0'' 48832000) \<in> set (nodes (network ex_no_flows))
   \<and> calculateQueueDelayForLink ex_no_flows (ex_link ''N2'' ''S0'' 48832000) ex_flow (- 1) =
        Inr [(''baStandard'', 0), (''qStandardL3V1'', 0), (''qStandardL3V2'', 0),
             (''plenary100Mbit'', 0), (''plenaryFasterMedia'', 0),
             (''plenaryFasterMediaV2'', 0), (''qStandardL3V3'', 0)]"
  using zero_flow_network [of ex_no_flows "ex_link ''N2'' ''S0'' 48832000" ex_flow "- 1"]
  by (simp add: ex_no_flows_def ex_link_def)

subsection \<open>A flow without cached path\<close>

text \<open>
  C8, as stated, fails: the transmission delay \<open>(flow.size*8 + ifg) / self.linkspeed\<close> is
  computed before the path is looked up, so an analysis built with link speed 0 raises
  \<open>ZeroDivisionError\<close> also for a flow without cached path.
\<close>

theorem no_path_zero_linkspeed_raises:
  "lookupPath (network (NetworkLatencyAnalysis_init 0 (125 / 1000000) 0 64 1526 96))
     (Flow.src ex_flow) (Flow.dst ex_flow) = None
   \<and> calculateEndToEndDelayForFlow (NetworkLatencyAnalysis_init 0 (125 / 1000000) 0 64 1526 96)
        (\<lambda>r. []) ex_flow = Inl ZeroDivisionError"
  by (simp add: NetworkLatencyAnalysis_init_def lookupPath_def calculateEndToEndDelayForFlow_def
        Let_def)

text \<open>
  C8, amended. For every analysis whose link speed is not zero and every flow for which
  no path is cached, \<open>calculateEndToEndDelayForFlow\<close> returns the map with all seven
  values zero, raises nothing, and leaves the analysis (network and calculator) and the
  lists of links as they were.
\<close>

theorem no_path_all_zero:
  assumes "lookupPath (network self) (Flow.src flow) (Flow.dst flow) = None"
    and "linkspeed self \<noteq> 0"
  shows "calculateEndToEndDelayForFlow_call (self, h) flow =
           ((self, h),
            Inr [(''baStandard'', 0), (''qStandardL3V1'', 0), (''qStandardL3V2'', 0),
                 (''plenary100Mbit'', 0), (''plenaryFasterMedia'', 0),
                 (''plenaryFasterMediaV2'', 0), (''qStandardL3V3'', 0)])"
  using assms
  by (simp add: calculateEndToEndDelayForFlow_call_def calculateEndToEndDelayForFlow_def
        getEmptyResultDict_def Let_def)

theorem no_path_all_zero_witness:
  "lookupPath (network ex_no_flows) (Flow.src ex_flow) (Flow.dst ex_flow) = None
   \<and> linkspeed ex_no_flows \<noteq> 0
   \<and> calculateEndToEndDelayForFlow_call (ex_no_flows, \<lambda>r. []) ex_flow =
        ((ex_no_flows, \<lambda>r. []),
         Inr [(''baStandard'', 0), (''qStandardL3V1'', 0), (''qStandardL3V2'', 0),
              (''plenary100Mbit'', 0), (''plenaryFasterMedia'', 0),
              (''plenaryFasterMediaV2'', 0), (''qStandardL3V3'', 0)])"
  using no_path_all_zero [of ex_no_flows ex_flow "\<lambda>r. []"]
  by (simp add: ex_no_flows_def lookupPath_def)

subsection \<open>\<open>runAlgorithmsForPort\<close>\<close>

lemma bindE_eq_Inr: "(bindE m f = Inr r) = (\<exists>v. m = Inr v \<and> f v = Inr r)"
  by (cases m) simp_all

lemma bindE_assoc: "bindE (bindE m f) g = bindE m (\<lambda>v. bindE (f v) g)"
  by (cases m) simp_all

text \<open>
  Reversing the ascending sort gives the descending sort (Python's
  \<open>sorted(xs, reverse=True)\<close>, here \<open>sort_key (\<lambda>x. - x)\<close>).
\<close>

lemma filter_eq_replicate:
  "filter (\<lambda>x. k = x) zs = replicate (length (filter (\<lambda>x. k = x) zs)) k"
  by (induction zs) auto

lemma sorted_map_uminus_rev: "sorted (zs::real list) \<Longrightarrow> sorted (map (\<lambda>x. - x) (rev zs))"
  by (induction zs) (auto simp: sorted_append)

lemma rev_sort_descending: "rev (sort (xs::real list)) = sort_key (\<lambda>x. - x) xs"
proof (rule sym, rule properties_for_sort_key)
  show "mset (rev (sort xs)) = mset xs" by simp
  show "sorted (map (\<lambda>x. - x) (rev (sort xs)))" by (simp add: sorted_map_uminus_rev)
  fix k assume "k \<in> set (rev (sort xs))"
  have "length (filter (\<lambda>x. k = x) (rev (sort xs))) = length (filter (\<lambda>x. k = x) xs)"
  proof -
    have "mset (filter (\<lambda>x. k = x) (rev (sort xs))) = mset (filter (\<lambda>x. k = x) xs)"
      by (simp only: mset_filter mset_rev mset_sort)
    then show ?thesis by (metis size_mset)
  qed
  then have "filter (\<lambda>x. k = x) (rev (sort xs)) = filter (\<lambda>x. k = x) xs"
    using filter_eq_replicate [of k "rev (sort xs)"] filter_eq_replicate [of k xs] by simp
  then show "filter (\<lambda>x. - k = - x) (rev (sort xs)) = filter (\<lambda>x. - k = - x) xs" by simp
qed

text \<open>
  C5, as stated, fails: \<open>runAlgorithmsForPort\<close> does not return a mapping for all scalar
  arguments. At idle slope 0, \<open>baStandard\<close> divides by the idle slope and the call raises
  \<open>ZeroDivisionError\<close>.
\<close>

theorem runAlgorithmsForPort_raises:
  "runAlgorithmsForPort ex_calculator 0 6096 6096 0 [] = Inl ZeroDivisionError"
  by (simp add: runAlgorithmsForPort_def baStandard_def ex_calculator_def
        CBSLatencyCalculator_init_def Let_def)

text \<open>
  C5, amended. Whenever \<open>runAlgorithmsForPort\<close> returns (no formula divides by zero), the
  keys of the mapping are exactly the seven names, in the order of \<open>getEmptyResultDict\<close>,
  whose values are all zero; the \<open>qStandardL3V2\<close> entry is \<open>qStandardL3V2\<close> on the input
  idle slopes sorted in ascending order, and the \<open>qStandardL3V3\<close> entry is \<open>qStandardL3V2\<close>
  on the same slopes sorted in descending order.
\<close>

theorem runAlgorithmsForPort_result:
  assumes "runAlgorithmsForPort self slope streamMaxFrame classMaxFrame nrInputLinks xs = Inr r"
  shows "map fst r = [''baStandard'', ''qStandardL3V1'', ''qStandardL3V2'', ''plenary100Mbit'',
                      ''plenaryFasterMedia'', ''plenaryFasterMediaV2'', ''qStandardL3V3'']
         \<and> map fst (getEmptyResultDict self) = map fst r
         \<and> map snd (getEmptyResultDict self) = [0, 0, 0, 0, 0, 0, 0]
         \<and> dict_get r ''qStandardL3V2'' = qStandardL3V2 self slope classMaxFrame (sort xs)
         \<and> dict_get r ''qStandardL3V3'' =
             qStandardL3V2 self slope classMaxFrame (sort_key (\<lambda>x. - x) xs)"
  using assms unfolding rev_sort_descending [symmetric]
  by (auto simp: runAlgorithmsForPort_def Let_def bindE_eq_Inr dict_set_def dict_get_def
        getEmptyResultDict_def)

theorem runAlgorithmsForPort_result_witness:
  "runAlgorithmsForPort ex_calculator 48832000 6096 6096 2 [2000000, 1000000] =
     Inr [(''baStandard'', 3494613 / 19075000000),
          (''qStandardL3V1'', 1203047 / 2498437500),
          (''qStandardL3V2'', 69093073997 / 65169243750000),
          (''plenary100Mbit'', 23 / 125000),
          (''plenaryFasterMedia'', 6201 / 25000000),
          (''plenaryFasterMediaV2'', 4697101 / 19075000000),
          (''qStandardL3V3'', 34918903811 / 33209231250000)]
   \<and> qStandardL3V2 ex_calculator 48832000 6096 (sort [2000000, 1000000]) =
       Inr (69093073997 / 65169243750000)
   \<and> qStandardL3V2 ex_calculator 48832000 6096 (sort_key (\<lambda>x. - x) [2000000, 1000000]) =
       Inr (34918903811 / 33209231250000)"
proof -
  have run: "runAlgorithmsForPort ex_calculator 48832000 6096 6096 2 [2000000, 1000000] =
     Inr [(''baStandard'', 3494613 / 19075000000),
          (''qStandardL3V1'', 1203047 / 2498437500),
          (''qStandardL3V2'', 69093073997 / 65169243750000),
          (''plenary100Mbit'', 23 / 125000),
          (''plenaryFasterMedia'', 6201 / 25000000),
          (''plenaryFasterMediaV2'', 4697101 / 19075000000),
          (''qStandardL3V3'', 34918903811 / 33209231250000)]"
    by (simp add: runAlgorithmsForPort_def ex_calculator_def
        CBSLatencyCalculator_init_def baStandard_def qStandardL3V1_def
        qStandardL3V2_def plenary100Mbit_def plenary100Mbit_N_def plenaryFasterMedia_def
        plenaryFasterMediaV2_def getMaxReservedPlenary_def
        dict_set_def Let_def numeral_2_eq_2)
  from runAlgorithmsForPort_result [OF run] run show ?thesis
    by (simp add: dict_get_def)
qed

subsection \<open>\<open>runAlgorithmsForPort\<close> leaves its arguments alone\<close>

text \<open>
  C10. \<open>runAlgorithmsForPort\<close> does not change the list it receives as
  \<open>inputIdleSlopes\<close>: for every allocated list, its content and order after the call are
  those before the call, as are those of every other list allocated before the call
  (the engine sorts and reverses a fresh copy); the calculator, with all its
  configuration fields, is unchanged. This holds whether the call returns or raises,
  and the result is the one of \<open>runAlgorithmsForPort\<close> on the content of the list.
\<close>

theorem runAlgorithmsForPort_frame:
  assumes "inputIdleSlopes < next_ref h"
    and "runAlgorithmsForPort_call self h slope streamMaxFrame classMaxFrame nrInputLinks
           inputIdleSlopes = ((self', h'), r)"
  shows "cells h' inputIdleSlopes = cells h inputIdleSlopes
         \<and> (\<forall>p < next_ref h. cells h' p = cells h p)
         \<and> self' = self
         \<and> r = runAlgorithmsForPort self slope streamMaxFrame classMaxFrame nrInputLinks
                 (cells h inputIdleSlopes)"
proof -
  define six where "six = bindE (baStandard self slope streamMaxFrame) (\<lambda>r.
        let results = dict_set [] ''baStandard'' r in
        bindE (qStandardL3V1 self slope classMaxFrame nrInputLinks) (\<lambda>r.
        let results = dict_set results ''qStandardL3V1'' r in
        bindE (qStandardL3V2 self slope classMaxFrame (sort (cells h inputIdleSlopes))) (\<lambda>r.
        let results = dict_set results ''qStandardL3V2'' r in
        bindE (plenary100Mbit self slope streamMaxFrame nrInputLinks) (\<lambda>r.
        let results = dict_set results ''plenary100Mbit'' r in
        bindE (plenaryFasterMedia self) (\<lambda>r.
        let results = dict_set results ''plenaryFasterMedia'' r in
        bindE (plenaryFasterMediaV2 self slope streamMaxFrame) (\<lambda>r.
        let results = dict_set results ''plenaryFasterMediaV2'' r in
        Inr results))))))"
  define h1 where "h1 = \<lparr> next_ref = next_ref h + 1,
                          cells = (cells h)(next_ref h := sort (cells h inputIdleSlopes)) \<rparr>"
  have pure: "runAlgorithmsForPort self slope streamMaxFrame classMaxFrame nrInputLinks
                (cells h inputIdleSlopes)
              = bindE six (\<lambda>results.
                  bindE (qStandardL3V2 self slope classMaxFrame (rev (sort (cells h inputIdleSlopes))))
                    (\<lambda>r. Inr (dict_set results ''qStandardL3V3'' r)))"
    by (simp add: runAlgorithmsForPort_def six_def Let_def bindE_assoc)
  have call: "runAlgorithmsForPort_call self h slope streamMaxFrame classMaxFrame nrInputLinks
                inputIdleSlopes
              = (case six of
                   Inl e \<Rightarrow> ((self, h1), Inl e)
                 | Inr results \<Rightarrow>
                     ((self, h1\<lparr>cells := (cells h1)(next_ref h := rev (cells h1 (next_ref h)))\<rparr>),
                      bindE (qStandardL3V2 self slope classMaxFrame
                               (rev (sort (cells h inputIdleSlopes))))
                        (\<lambda>r. Inr (dict_set results ''qStandardL3V3'' r))))"
    by (simp add: runAlgorithmsForPort_call_def alloc_def six_def h1_def Let_def split: sum.splits)
  show ?thesis
  proof (cases six)
    case (Inl e)
    with assms show ?thesis
      unfolding pure call by (auto simp: h1_def)
  next
    case (Inr results)
    with assms show ?thesis
      unfolding pure call by (auto simp: h1_def)
  qed
qed

theorem runAlgorithmsForPort_frame_witness:
  "(0::nat) < next_ref \<lparr> next_ref = 1, cells = (\<lambda>p. [])(0 := [3000000, 1000000, 2000000]) \<rparr>
   \<and> fst (runAlgorithmsForPort_call ex_calculator
         \<lparr> next_ref = 1, cells = (\<lambda>p. [])(0 := [3000000, 1000000, 2000000]) \<rparr>
         48832000 6096 6096 3 0)
       = (ex_calculator,
          \<lparr> next_ref = 2,
            cells = (\<lambda>p. [])(0 := [3000000, 1000000, 2000000], 1 := [3000000, 2000000, 1000000]) \<rparr>)
   \<and> cells (snd (fst (runAlgorithmsForPort_call ex_calculator
         \<lparr> next_ref = 1, cells = (\<lambda>p. [])(0 := [3000000, 1000000, 2000000]) \<rparr>
         48832000 6096 6096 3 0))) 0 = [3000000, 1000000, 2000000]"
  using runAlgorithmsForPort_frame [of 0
     "\<lparr> next_ref = 1, cells = (\<lambda>p. [])(0 := [3000000, 1000000, 2000000]) \<rparr>"
     ex_calculator 48832000 6096 6096 3
     "fst (fst (runAlgorithmsForPort_call ex_calculator
         \<lparr> next_ref = 1, cells = (\<lambda>p. [])(0 := [3000000, 1000000, 2000000]) \<rparr>
         48832000 6096 6096 3 0))"
     "snd (fst (runAlgorithmsForPort_call ex_calculator
         \<lparr> next_ref = 1, cells = (\<lambda>p. [])(0 := [3000000, 1000000, 2000000]) \<rparr>
         48832000 6096 6096 3 0))"
     "snd (runAlgorithmsForPort_call ex_calculator
         \<lparr> next_ref = 1, cells = (\<lambda>p. [])(0 := [3000000, 1000000, 2000000]) \<rparr>
         48832000 6096 6096 3 0)"]
  by (simp add: runAlgorithmsForPort_call_def alloc_def ex_calculator_def
        CBSLatencyCalculator_init_def baStandard_def qStandardL3V1_def
        qStandardL3V2_def plenary100Mbit_def plenary100Mbit_N_def plenaryFasterMedia_def
        plenaryFasterMediaV2_def getMaxReservedPlenary_def
        dict_set_def Let_def numeral_3_eq_3)

subsection \<open>Registrations\<close>

lemma find_None_keys:
  "(find (\<lambda>x. f x = a \<and> g x = b) xs = None) = ((a, b) \<notin> set (map (\<lambda>x. (f x, g x)) xs))"
  by (induction xs) auto

lemma getLink_None: "(getLink net s d = None)
    = ((s, d) \<notin> set (map (\<lambda>l. (Link.src l, Link.dst l)) (Network.links net)))"
  by (simp add: getLink_def isLinkFor_def find_None_keys)

lemma getFlow_None: "(getFlow net s d = None)
    = ((s, d) \<notin> set (map (\<lambda>f. (Flow.src f, Flow.dst f)) (flows net)))"
  by (simp add: getFlow_def find_None_keys)

lemma addLink_unique:
  assumes "unique_links net"
  shows "unique_links (addLink net s d r dl sl)"
proof (cases "getLink net s d")
  case None
  then have "(s, d) \<notin> set (map (\<lambda>l. (Link.src l, Link.dst l)) (Network.links net))"
    using getLink_None [of net s d] by blast
  with None assms show ?thesis by (simp add: addLink_def unique_links_def)
next
  case (Some l)
  with assms show ?thesis by (simp add: addLink_def)
qed

lemma addLink_flows [simp]: "flows (addLink net s d r dl sl) = flows net"
  by (simp add: addLink_def split: option.splits)

lemma addFlow_unique:
  assumes "unique_flows net"
  shows "unique_flows (addFlow net f)"
proof (cases "getFlow net (Flow.src f) (Flow.dst f)")
  case None
  then have "(Flow.src f, Flow.dst f) \<notin> set (map (\<lambda>f. (Flow.src f, Flow.dst f)) (flows net))"
    using getFlow_None [of net "Flow.src f" "Flow.dst f"] by blast
  with None assms show ?thesis by (simp add: addFlow_def unique_flows_def)
next
  case (Some g)
  with assms show ?thesis by (simp add: addFlow_def)
qed

lemma addFlow_links [simp]: "Network.links (addFlow net f) = Network.links net"
  by (simp add: addFlow_def split: option.splits)

lemma unique_links_addNode: "unique_links (addNode net n) = unique_links net"
  by (simp add: unique_links_def addNode_def)

lemma unique_flows_addNode: "unique_flows (addNode net n) = unique_flows net"
  by (simp add: unique_flows_def addNode_def)

lemma unique_links_addBridge: "unique_links (addBridge net b) = unique_links net"
  by (simp add: unique_links_def addBridge_def)

lemma unique_flows_addBridge: "unique_flows (addBridge net b) = unique_flows net"
  by (simp add: unique_flows_def addBridge_def)

lemma unique_flows_addLink: "unique_flows (addLink net s d r dl sl) = unique_flows net"
  by (simp add: unique_flows_def)

lemma unique_links_addFlow: "unique_links (addFlow net f) = unique_links net"
  by (simp add: unique_links_def)

lemma register_unique:
  assumes "unique_links net \<and> unique_flows net"
  shows "unique_links (register net c) \<and> unique_flows (register net c)"
proof (cases c)
  case (AddNode n)
  with assms show ?thesis
    by (simp add: unique_links_addNode unique_flows_addNode)
next
  case (AddBridge b)
  with assms show ?thesis
    by (simp add: unique_links_addBridge unique_flows_addBridge)
next
  case (AddLink s d r dl sl)
  with assms show ?thesis
    by (simp add: addLink_unique unique_flows_addLink)
next
  case (AddBidirectionalLink s d r dl sl)
  with assms show ?thesis
    by (simp add: addBidirectionalLink_def addLink_unique unique_flows_addLink)
next
  case (AddFlow f)
  with assms show ?thesis
    by (simp add: addFlow_unique unique_links_addFlow)
qed

lemma registers_unique:
  "unique_links net \<and> unique_flows net
   \<Longrightarrow> unique_links (foldl register net cs) \<and> unique_flows (foldl register net cs)"
proof (induction cs arbitrary: net)
  case Nil
  then show ?case by simp
next
  case (Cons c cs)
  from register_unique [OF Cons.prems]
  have "unique_links (register net c) \<and> unique_flows (register net c)" .
  from Cons.IH [OF this] show ?case by simp
qed

lemma addFlow_flows:
  "set (map (\<lambda>f. (Flow.src f, Flow.dst f)) (flows (addFlow net f)))
     = insert (Flow.src f, Flow.dst f) (set (map (\<lambda>f. (Flow.src f, Flow.dst f)) (flows net)))"
proof (cases "getFlow net (Flow.src f) (Flow.dst f)")
  case None
  then show ?thesis by (auto simp: addFlow_def)
next
  case (Some g)
  then have "(Flow.src f, Flow.dst f) \<in> set (map (\<lambda>f. (Flow.src f, Flow.dst f)) (flows net))"
    using getFlow_None [of net "Flow.src f" "Flow.dst f"] by simp
  with Some show ?thesis by (auto simp: addFlow_def)
qed

lemma addFlow_present: "getFlow (addFlow net f) (Flow.src f) (Flow.dst f) \<noteq> None"
  using getFlow_None [of "addFlow net f" "Flow.src f" "Flow.dst f"] addFlow_flows [of net f]
  by blast

lemma addFlow_again: "getFlow net (Flow.src f) (Flow.dst f) \<noteq> None \<Longrightarrow> addFlow net f = net"
  by (auto simp: addFlow_def)

lemma addLink_links:
  "set (map (\<lambda>l. (Link.src l, Link.dst l)) (Network.links (addLink net s d r dl sl)))
     = insert (s, d) (set (map (\<lambda>l. (Link.src l, Link.dst l)) (Network.links net)))"
proof (cases "getLink net s d")
  case None
  then show ?thesis by (auto simp: addLink_def)
next
  case (Some l)
  then have "(s, d) \<in> set (map (\<lambda>l. (Link.src l, Link.dst l)) (Network.links net))"
    using getLink_None [of net s d] by simp
  with Some show ?thesis by (auto simp: addLink_def)
qed

lemma addLink_present: "getLink (addLink net s d r dl sl) s d \<noteq> None"
  using getLink_None [of "addLink net s d r dl sl" s d] addLink_links [of net s d r dl sl]
  by blast

lemma addLink_keeps:
  assumes "getLink net s d \<noteq> None"
  shows "getLink (addLink net s' d' r dl sl) s d \<noteq> None"
proof
  assume "getLink (addLink net s' d' r dl sl) s d = None"
  then have "(s, d) \<notin> set (map (\<lambda>l. (Link.src l, Link.dst l))
                          (Network.links (addLink net s' d' r dl sl)))"
    by (rule getLink_None [THEN iffD1])
  then have "(s, d) \<notin> set (map (\<lambda>l. (Link.src l, Link.dst l)) (Network.links net))"
    unfolding addLink_links by simp
  then have "getLink net s d = None"
    by (rule getLink_None [THEN iffD2])
  with assms show False by contradiction
qed

lemma addLink_again: "getLink net s d \<noteq> None \<Longrightarrow> addLink net s d r dl sl = net"
  by (auto simp: addLink_def)


lemma register_idem: "register (register net c) c = register net c"
proof (cases c)
  case (AddNode n)
  then show ?thesis by (simp add: addNode_def)
next
  case (AddBridge b)
  then show ?thesis by (simp add: addBridge_def)
next
  case (AddLink s d r dl sl)
  then show ?thesis by (simp add: addLink_again addLink_present)
next
  case (AddBidirectionalLink s d r dl sl)
  then show ?thesis
    by (simp add: addBidirectionalLink_def addLink_again addLink_present addLink_keeps)
next
  case (AddFlow f)
  then show ?thesis by (simp add: addFlow_again addFlow_present)
qed

text \<open>
  C9. Every sequence of \<open>addNode\<close>, \<open>addBridge\<close>, \<open>addLink\<close>, \<open>addBidirectionalLink\<close> and
  \<open>addFlow\<close> calls keeps at most one link and at most one flow per ordered
  \<open>(src, dst)\<close> pair; repeating a call changes nothing, and a call for an identity that is
  already present (the node or bridge id, the ordered pair of a link or of a flow, both
  directions for a bidirectional link) returns the network as it was.
\<close>

theorem registrations_idempotent:
  assumes "unique_links net" and "unique_flows net"
  shows "unique_links (foldl register net cs) \<and> unique_flows (foldl register net cs)
         \<and> register (register (foldl register net cs) c) c = register (foldl register net cs) c
         \<and> (n \<in> set (nodes net) \<longrightarrow> addNode net n = net)
         \<and> (b \<in> set (bridges net) \<longrightarrow> addBridge net b = net)
         \<and> (getLink net s d \<noteq> None \<longrightarrow> addLink net s d r dl sl = net)
         \<and> (getLink net s d \<noteq> None \<and> getLink net d s \<noteq> None
              \<longrightarrow> addBidirectionalLink net s d r dl sl = net)
         \<and> (getFlow net (Flow.src f) (Flow.dst f) \<noteq> None \<longrightarrow> addFlow net f = net)"
proof -
  have u: "unique_links (foldl register net cs) \<and> unique_flows (foldl register net cs)"
    using assms registers_unique [of net cs] by simp
  have i: "register (register (foldl register net cs) c) c = register (foldl register net cs) c"
    by (rule register_idem)
  have n: "n \<in> set (nodes net) \<longrightarrow> addNode net n = net"
    by (simp add: addNode_def)
  have b: "b \<in> set (bridges net) \<longrightarrow> addBridge net b = net"
    by (simp add: addBridge_def)
  have l: "getLink net s d \<noteq> None \<longrightarrow> addLink net s d r dl sl = net"
    by (simp add: addLink_again)
  have bl: "getLink net s d \<noteq> None \<and> getLink net d s \<noteq> None
              \<longrightarrow> addBidirectionalLink net s d r dl sl = net"
    by (simp add: addBidirectionalLink_def addLink_again)
  have f: "getFlow net (Flow.src f) (Flow.dst f) \<noteq> None \<longrightarrow> addFlow net f = net"
    by (simp add: addFlow_again)
  show ?thesis
    using u i n b l bl f by (intro conjI) (erule conjunct1, erule conjunct2, assumption+)
qed

theorem registrations_idempotent_witness:
  "unique_links (network ex_analysis) \<and> unique_flows (network ex_analysis)
   \<and> unique_links (foldl register (network ex_analysis)
         [AddNode ''N3'', AddLink ''N0'' ''S0'' 1 2 3,
          AddBidirectionalLink ''N3'' ''S0'' 100000000 0 0, AddFlow ex_flow])
   \<and> unique_flows (foldl register (network ex_analysis)
         [AddNode ''N3'', AddLink ''N0'' ''S0'' 1 2 3,
          AddBidirectionalLink ''N3'' ''S0'' 100000000 0 0, AddFlow ex_flow])
   \<and> length (Network.links (foldl register (network ex_analysis)
         [AddNode ''N3'', AddLink ''N0'' ''S0'' 1 2 3,
          AddBidirectionalLink ''N3'' ''S0'' 100000000 0 0, AddFlow ex_flow])) = 6
   \<and> register (register (foldl register (network ex_analysis)
         [AddNode ''N3'', AddLink ''N0'' ''S0'' 1 2 3,
          AddBidirectionalLink ''N3'' ''S0'' 100000000 0 0, AddFlow ex_flow])
           (AddBidirectionalLink ''N3'' ''S0'' 100000000 0 0))
           (AddBidirectionalLink ''N3'' ''S0'' 100000000 0 0)
       = foldl register (network ex_analysis)
         [AddNode ''N3'', AddLink ''N0'' ''S0'' 1 2 3,
          AddBidirectionalLink ''N3'' ''S0'' 100000000 0 0, AddFlow ex_flow]
   \<and> ''N0'' \<in> set (nodes (network ex_analysis))
   \<and> addNode (network ex_analysis) ''N0'' = network ex_analysis
   \<and> ''S0'' \<in> set (bridges (network ex_analysis))
   \<and> addBridge (network ex_analysis) ''S0'' = network ex_analysis
   \<and> getLink (network ex_analysis) ''S0'' ''N2'' \<noteq> None
   \<and> getLink (network ex_analysis) ''N2'' ''S0'' \<noteq> None
   \<and> addLink (network ex_analysis) ''S0'' ''N2'' 1 2 3 = network ex_analysis
   \<and> addBidirectionalLink (network ex_analysis) ''S0'' ''N2'' 1 2 3 = network ex_analysis
   \<and> getFlow (network ex_analysis) (Flow.src ex_flow) (Flow.dst ex_flow) \<noteq> None
   \<and> addFlow (network ex_analysis) ex_flow = network ex_analysis"
  using registrations_idempotent [where net = "network ex_analysis"
      and cs = "[AddNode ''N3'', AddLink ''N0'' ''S0'' 1 2 3,
                 AddBidirectionalLink ''N3'' ''S0'' 100000000 0 0, AddFlow ex_flow]"
      and c = "AddBidirectionalLink ''N3'' ''S0'' 100000000 0 0"
      and n = "''N0''" and b = "''S0''" and s = "''S0''" and d = "''N2''"
      and r = 1 and dl = 2 and sl = 3 and f = ex_flow]
  by (simp add: ex_analysis_def ex_link_def ex_flow_def unique_links_def unique_flows_def
        addNode_def addLink_def addBidirectionalLink_def addFlow_def getLink_def getFlow_def
        isLinkFor_def)

subsection \<open>End-to-end aggregation\<close>

lemma runAlgorithmsForPort_keys:
  "runAlgorithmsForPort self slope streamMaxFrame classMaxFrame nrInputLinks xs = Inr r
   \<Longrightarrow> map fst r = formula_names"
  by (auto simp: runAlgorithmsForPort_def Let_def bindE_eq_Inr dict_set_def formula_names_def)

lemma calculateQueueDelayForLink_keys:
  "calculateQueueDelayForLink self link flow classMaxFrame = Inr r \<Longrightarrow> map fst r = formula_names"
  by (auto simp: calculateQueueDelayForLink_def Let_def bindE_eq_Inr getEmptyResultDict_def
        formula_names_def [symmetric] runAlgorithmsForPort_keys
        split: if_splits)

lemma calculateQueueDelayForLink_default:
  "calculateQueueDelayForLink self link flow (- 1) =
   calculateQueueDelayForLink self link flow (findClassMaxFrame (network self) * 8 + ifg self)"
  by (simp add: calculateQueueDelayForLink_def Let_def)

lemma dict_get_Inr: "(dict_get d k = Inr v) = (map_of d k = Some v)"
  by (simp add: dict_get_def split: option.splits)

lemma map_of_dict_set: "map_of (dict_set d k v) = (map_of d)(k \<mapsto> v)"
  by (simp add: dict_set_def update_conv')

lemma keys_dict_set: "k \<in> set (map fst d) \<Longrightarrow> map fst (dict_set d k v) = map fst d"
  by (simp add: dict_set_def update_keys)

text \<open>One pass of the loop over the keys.\<close>

lemma keys_loop:
  assumes "set ks \<subseteq> set (map fst flowDelay)" and "set ks \<subseteq> set (map fst result)"
    and "distinct ks"
  shows "\<exists>fd. calculateEndToEndDelayForFlow_keys self link td result ks flowDelay = Inr fd
           \<and> map fst fd = map fst flowDelay
           \<and> (\<forall>k. map_of fd k =
                 (if k \<in> set ks
                  then Some (the (map_of flowDelay k) + the (map_of result k) + td
                             + (if Link.src link \<in> set (bridges (network self))
                                then switchDelay self else 0))
                  else map_of flowDelay k))"
  using assms
proof (induction ks arbitrary: flowDelay)
  case Nil
  then show ?case by simp
next
  case (Cons key ks)
  let ?b = "if Link.src link \<in> set (bridges (network self)) then switchDelay self else 0"
  from Cons.prems obtain old r where
    old: "map_of flowDelay key = Some old" and r: "map_of result key = Some r"
    by (auto simp: image_iff dest!: weak_map_of_SomeI)
  define fd2 where "fd2 = (if Link.src link \<in> set (bridges (network self))
      then dict_set (dict_set flowDelay key (old + r + td)) key (old + r + td + switchDelay self)
      else dict_set flowDelay key (old + r + td))"
  have key_in: "key \<in> set (map fst flowDelay)" using Cons.prems(1) by simp
  have step: "calculateEndToEndDelayForFlow_keys self link td result (key # ks) flowDelay
              = calculateEndToEndDelayForFlow_keys self link td result ks fd2"
    using old r by (simp add: dict_get_def fd2_def Let_def map_of_dict_set)
  have keys2: "map fst fd2 = map fst flowDelay"
    using key_in by (simp add: fd2_def keys_dict_set)
  have map2: "map_of fd2 = (map_of flowDelay)(key \<mapsto> old + r + td + ?b)"
    by (simp add: fd2_def map_of_dict_set)
  have "set ks \<subseteq> set (map fst fd2)" "set ks \<subseteq> set (map fst result)" "distinct ks"
    using Cons.prems keys2 by simp_all
  from Cons.IH [OF this] obtain fd where
    fd: "calculateEndToEndDelayForFlow_keys self link td result ks fd2 = Inr fd"
        "map fst fd = map fst fd2"
        "\<And>k. map_of fd k =
                 (if k \<in> set ks
                  then Some (the (map_of fd2 k) + the (map_of result k) + td + ?b)
                  else map_of fd2 k)"
    by blast
  have "key \<notin> set ks" using Cons.prems(3) by simp
  then have "\<And>k. map_of fd k =
                 (if k \<in> set (key # ks)
                  then Some (the (map_of flowDelay k) + the (map_of result k) + td + ?b)
                  else map_of flowDelay k)"
    using fd(3) old r by (auto simp: map2)
  with fd(1,2) step keys2 show ?case by simp
qed

text \<open>The loop over the links of the path, for one formula name.\<close>

lemma links_loop:
  assumes "map fst flowDelay = formula_names"
    and "key \<in> set formula_names"
    and "\<And>link. link \<in> set ls \<Longrightarrow>
           \<exists>r. calculateQueueDelayForLink self link flow cmf = Inr r \<and> map_of r key = Some (q link)"
  shows "\<exists>fd. calculateEndToEndDelayForFlow_links self flow cmf td ls flowDelay = Inr fd
           \<and> map fst fd = formula_names
           \<and> map_of fd key =
               Some (the (map_of flowDelay key)
                     + sum_list (map (\<lambda>l. q l + td
                          + (if Link.src l \<in> set (bridges (network self))
                             then switchDelay self else 0)) ls))"
  using assms
proof (induction ls arbitrary: flowDelay)
  case Nil
  then have "key \<in> set (map fst flowDelay)" by simp
  then obtain v where "map_of flowDelay key = Some v"
    by (auto simp: image_iff dest!: weak_map_of_SomeI)
  with Nil show ?case by simp
next
  case (Cons link ls)
  from Cons.prems(3) [of link] obtain r where
    r: "calculateQueueDelayForLink self link flow cmf = Inr r" "map_of r key = Some (q link)"
    by auto
  have rk: "map fst r = formula_names" using r(1) by (rule calculateQueueDelayForLink_keys)
  have "set formula_names \<subseteq> set (map fst flowDelay)"
       "set formula_names \<subseteq> set (map fst r)" "distinct formula_names"
    using Cons.prems(1) rk by (simp_all add: formula_names_def)
  from keys_loop [OF this, of self link td] obtain fd1 where
    fd1: "calculateEndToEndDelayForFlow_keys self link td r formula_names flowDelay = Inr fd1"
         "map fst fd1 = map fst flowDelay"
         "\<And>k. map_of fd1 k =
                 (if k \<in> set formula_names
                  then Some (the (map_of flowDelay k) + the (map_of r k) + td
                             + (if Link.src link \<in> set (bridges (network self))
                                then switchDelay self else 0))
                  else map_of flowDelay k)"
    by blast
  have k1: "map_of fd1 key = Some (the (map_of flowDelay key) + q link + td
                             + (if Link.src link \<in> set (bridges (network self))
                                then switchDelay self else 0))"
    using fd1(3) [of key] Cons.prems(2) r(2) by simp
  have "map fst fd1 = formula_names" using fd1(2) Cons.prems(1) by simp
  from Cons.IH [OF this Cons.prems(2)] Cons.prems(3) obtain fd where
    fd: "calculateEndToEndDelayForFlow_links self flow cmf td ls fd1 = Inr fd"
        "map fst fd = formula_names"
        "map_of fd key =
               Some (the (map_of fd1 key)
                     + sum_list (map (\<lambda>l. q l + td
                          + (if Link.src l \<in> set (bridges (network self))
                             then switchDelay self else 0)) ls))"
    by auto
  have "calculateEndToEndDelayForFlow_links self flow cmf td (link # ls) flowDelay = Inr fd"
    using r(1) rk fd1(1) fd(1) by simp
  with fd(2,3) k1 show ?case by (simp add: add.assoc)
qed

lemma sum_list_hops:
  "sum_list (map (\<lambda>l. q l + td + (if P l then sw else 0)) ls) =
   sum_list (map q ls) + of_nat (length ls) * td + of_nat (length (filter P ls)) * (sw::real)"
  by (induction ls) (auto simp: algebra_simps)

text \<open>
  C2. For a flow whose pair has a cached path of \<open>k\<close> links, and for each of the seven
  formula names, \<open>calculateEndToEndDelayForFlow\<close> maps the name to the sum over the \<open>k\<close>
  links of the link's queue delay for that formula (the entry of
  \<open>calculateQueueDelayForLink(link, flow)\<close>, here \<open>q link\<close>), plus \<open>k\<close> times the transmission
  delay \<open>(flow.size*8 + IFG)/linkspeed\<close>, plus the switch delay once for each link whose
  source is a registered bridge. The link speed is not zero, since the claim divides by
  it, and every per-link query has returned.
\<close>

theorem end_to_end_aggregation:
  assumes "lookupPath (network self) (Flow.src flow) (Flow.dst flow) = Some path"
    and "linkspeed self \<noteq> 0"
    and "key \<in> set formula_names"
    and "\<forall>link \<in> set (h (Path.links path)).
           bindE (calculateQueueDelayForLink self link flow (- 1)) (\<lambda>r. dict_get r key)
             = Inr (q link)"
  shows "bindE (calculateEndToEndDelayForFlow self h flow) (\<lambda>r. dict_get r key) =
           Inr (sum_list (map q (h (Path.links path)))
                + of_nat (length (h (Path.links path)))
                    * (of_int (Flow.size flow * 8 + ifg self) / linkspeed self)
                + of_nat (length (filter (\<lambda>l. Link.src l \<in> set (bridges (network self)))
                                    (h (Path.links path))))
                    * switchDelay self)"
proof -
  let ?cmf = "findClassMaxFrame (network self) * 8 + ifg self"
  let ?td = "of_int (Flow.size flow * 8 + ifg self) / linkspeed self"
  have zero: "map fst (getEmptyResultDict (calculator self)) = formula_names"
             "map_of (getEmptyResultDict (calculator self)) key = Some 0"
    using assms(3) by (auto simp: getEmptyResultDict_def formula_names_def)
  have per_link: "\<And>link. link \<in> set (h (Path.links path)) \<Longrightarrow>
           \<exists>r. calculateQueueDelayForLink self link flow ?cmf = Inr r
               \<and> map_of r key = Some (q link)"
    using assms(4)
    by (auto simp: bindE_eq_Inr dict_get_Inr calculateQueueDelayForLink_default)
  from links_loop [OF zero(1) assms(3) per_link, of "h (Path.links path)" ?td] obtain fd where
    fd: "calculateEndToEndDelayForFlow_links self flow ?cmf ?td (h (Path.links path))
           (getEmptyResultDict (calculator self)) = Inr fd"
        "map_of fd key =
               Some (the (map_of (getEmptyResultDict (calculator self)) key)
                     + sum_list (map (\<lambda>l. q l + ?td
                          + (if Link.src l \<in> set (bridges (network self))
                             then switchDelay self else 0)) (h (Path.links path))))"
    by auto
  have "calculateEndToEndDelayForFlow self h flow = Inr fd"
    using assms(1,2) fd(1) by (simp add: calculateEndToEndDelayForFlow_def Let_def)
  then show ?thesis
    using fd(2) zero(2) by (simp add: dict_get_def sum_list_hops)
qed

theorem end_to_end_aggregation_witness:
  "lookupPath (network ex_analysis) (Flow.src ex_flow) (Flow.dst ex_flow)
     = Some \<lparr> Path.src = ''N0'', Path.dst = ''N2'', Path.links = 1 \<rparr>
   \<and> ex_store 1 = [ex_link ''N0'' ''S0'' 48832000, ex_link ''S0'' ''N2'' 48832000]
   \<and> linkspeed ex_analysis \<noteq> 0
   \<and> ''baStandard'' \<in> set formula_names
   \<and> bindE (calculateQueueDelayForLink ex_analysis (ex_link ''N0'' ''S0'' 48832000) ex_flow (- 1))
        (\<lambda>r. dict_get r ''baStandard'') = Inr 0
   \<and> bindE (calculateQueueDelayForLink ex_analysis (ex_link ''S0'' ''N2'' 48832000) ex_flow (- 1))
        (\<lambda>r. dict_get r ''baStandard'') = Inr (3494613 / 19075000000)
   \<and> bindE (calculateEndToEndDelayForFlow ex_analysis ex_store ex_flow)
        (\<lambda>r. dict_get r ''baStandard'')
       = Inr ((0 + 3494613 / 19075000000) + 2 * (6096 / 100000000) + 1 * (8 / 1000000))"
proof -
  have p: "lookupPath (network ex_analysis) (Flow.src ex_flow) (Flow.dst ex_flow)
             = Some \<lparr> Path.src = ''N0'', Path.dst = ''N2'', Path.links = 1 \<rparr>"
    by (simp add: ex_analysis_def ex_flow_def lookupPath_def)
  have s: "ex_store 1 = [ex_link ''N0'' ''S0'' 48832000, ex_link ''S0'' ''N2'' 48832000]"
    by (simp add: ex_store_def)
  have s': "ex_store (Suc 0) = [ex_link ''N0'' ''S0'' 48832000, ex_link ''S0'' ''N2'' 48832000]"
    using s by simp
  have q1: "bindE (calculateQueueDelayForLink ex_analysis (ex_link ''N0'' ''S0'' 48832000) ex_flow (- 1))
        (\<lambda>r. dict_get r ''baStandard'') = Inr 0"
    by (simp add: calculateQueueDelayForLink_def ex_analysis_def ex_link_def
          getEmptyResultDict_def dict_get_def)
  have q2: "bindE (calculateQueueDelayForLink ex_analysis (ex_link ''S0'' ''N2'' 48832000) ex_flow (- 1))
        (\<lambda>r. dict_get r ''baStandard'') = Inr (3494613 / 19075000000)"
    by (simp add: ex_analysis_def ex_link_def ex_flow_def ex_calculator_def
        calculateQueueDelayForLink_def findClassMaxFrame_def getInputIdleSlopes_def
        getNumInputLinks_def runAlgorithmsForPort_def baStandard_def qStandardL3V1_def
        qStandardL3V2_def plenary100Mbit_def plenary100Mbit_N_def plenaryFasterMedia_def
        plenaryFasterMediaV2_def getMaxReservedPlenary_def CBSLatencyCalculator_init_def
        dict_set_def dict_get_def Let_def)
  have k: "''baStandard'' \<in> set formula_names" by (simp add: formula_names_def)
  have l: "linkspeed ex_analysis \<noteq> 0" by (simp add: ex_analysis_def)
  have "\<forall>link \<in> set (ex_store (Path.links \<lparr> Path.src = ''N0'', Path.dst = ''N2'', Path.links = 1 \<rparr>)).
           bindE (calculateQueueDelayForLink ex_analysis link ex_flow (- 1))
             (\<lambda>r. dict_get r ''baStandard'')
             = Inr (if Link.src link = ''N0'' then 0 else 3494613 / 19075000000)"
    using q1 q2 by (simp add: s') (simp add: ex_link_def)
  from end_to_end_aggregation
         [where h = ex_store and q = "\<lambda>link. if Link.src link = ''N0'' then 0 else 3494613 / 19075000000",
          OF p l k this]
  have "bindE (calculateEndToEndDelayForFlow ex_analysis ex_store ex_flow)
        (\<lambda>r. dict_get r ''baStandard'')
       = Inr ((0 + 3494613 / 19075000000) + 2 * (6096 / 100000000) + 1 * (8 / 1000000))"
    by (simp add: s') (simp add: ex_link_def ex_analysis_def ex_flow_def)
  with p s l k q1 q2 show ?thesis by (intro conjI)
qed

subsection \<open>Idle slope and delay\<close>

lemma baStandard_value:
  assumes "LINKSPEED self \<noteq> 0" and "slope \<noteq> 0"
  shows "baStandard self slope streamMaxFrame =
           Inr (of_int (ctMaxFrame self) / LINKSPEED self
                + max 0 ((slope * CMI self - streamMaxFrame) / slope)
                + (streamMaxFrame - of_int (CBSLatencyCalculator.IFG self)) / LINKSPEED self)"
proof -
  have "(slope * CMI self / LINKSPEED self - streamMaxFrame / LINKSPEED self)
              * LINKSPEED self / slope
            = (slope * CMI self - streamMaxFrame) / slope"
    using assms by (simp add: field_simps)
  with assms show ?thesis
    by (simp add: baStandard_def max_def)
qed

lemma catch_up_mono:
  assumes "0 < s1" and "s1 < s2" and "0 \<le> (m::real)"
  shows "(s1 * c - m) / s1 \<le> (s2 * c - m) / s2"
proof -
  have "m / s2 \<le> m / s1" using assms by (simp add: frac_le)
  moreover have "(s1 * c - m) / s1 = c - m / s1" "(s2 * c - m) / s2 = c - m / s2"
    using assms by (simp_all add: field_simps)
  ultimately show ?thesis by simp
qed

lemma catch_up_strict:
  assumes "0 < s1" and "s1 < s2" and "0 < (m::real)"
  shows "(s1 * c - m) / s1 < (s2 * c - m) / s2"
proof -
  have "m / s2 < m / s1" using assms by (simp add: frac_less2)
  moreover have "(s1 * c - m) / s1 = c - m / s1" "(s2 * c - m) / s2 = c - m / s2"
    using assms by (simp_all add: field_simps)
  ultimately show ?thesis by simp
qed

lemma burst_algebra:
  fixes c s L :: real
  assumes "s \<noteq> 0" and "L \<noteq> 0" and "s \<noteq> L"
  shows "(0 - c * s / (s - L)) / s + c * s / (L * (s - L)) + c / L = 2 * c / L"
proof -
  have d: "s - L \<noteq> 0" using assms(3) by simp
  have a: "(0 - c * s / (s - L)) / s = - (c / (s - L))"
    using assms(1) by simp
  have "c * s / (L * (s - L)) - c / (s - L) = (c * s - c * L) / (L * (s - L))"
    using assms(2) d by (simp add: diff_divide_distrib)
  also have "\<dots> = c * (s - L) / (L * (s - L))"
    by (simp add: algebra_simps)
  also have "\<dots> = c / L"
    using d by simp
  finally have b: "c * s / (L * (s - L)) - c / (s - L) = c / L" .
  show ?thesis
    unfolding a using b by simp
qed

lemma plenaryFasterMediaV2_clamped:
  assumes ls: "LINKSPEED self = 100000000"
    and cmi: "0 < CMI self"
    and ct: "0 \<le> ctMaxFrame self"
    and s: "0 < s" "s < LINKSPEED self"
    and clamp: "of_int (getMaxReservedPlenary self s) \<le> streamMaxFrame"
    and burst: "of_int (ctMaxFrame self) * s < CMI self * (LINKSPEED self * (LINKSPEED self - s))"
  shows "plenaryFasterMediaV2 self s streamMaxFrame
           = Inr (2 * of_int (ctMaxFrame self) / LINKSPEED self)"
proof -
  let ?ct = "real_of_int (ctMaxFrame self)"
  let ?L = "LINKSPEED self"
  have L: "?L > 0" "?L - s > 0" "s - ?L \<noteq> 0" using ls s by simp_all
  have sb: "(if \<lceil>(of_int (getMaxReservedPlenary self s) - streamMaxFrame) / (?L / 100000000)\<rceil> < 0
             then 0
             else \<lceil>(of_int (getMaxReservedPlenary self s) - streamMaxFrame) / (?L / 100000000)\<rceil>) = 0"
    using clamp ls by (simp add: ceiling_le_zero order.antisym)
  have mbt: "(0 - ?ct * s / ?L) / (s - ?L) = ?ct * s / (?L * (?L - s))"
    using L by (simp add: field_simps)
  have nonneg: "0 \<le> ?ct * s / (?L * (?L - s))"
    using ct s L by simp
  define x where "x = ?ct * s / (?L * (?L - s))"
  have "0 < ?L * (?L - s)" using L by simp
  then have "x < CMI self"
    unfolding x_def using burst by (simp add: pos_divide_less_eq)
  then have "x / CMI self < 1"
    using cmi by (simp add: pos_divide_less_eq)
  moreover have "0 \<le> x" using nonneg by (simp only: x_def)
  then have "0 \<le> x / CMI self"
    using cmi by (simp only: zero_le_divide_iff) simp
  ultimately have "\<lfloor>x / CMI self\<rfloor> = 0"
    by (simp add: floor_eq_iff)
  then have fl: "\<lfloor>?ct * s / (?L * (?L - s)) / CMI self\<rfloor> = 0"
    by (simp add: x_def)
  have n1: "?L / 100000000 = 1" using ls by simp
  have fl': "\<lfloor>- (?ct * s / (?L * ((s - ?L) * CMI self)))\<rfloor> = 0"
  proof -
    have "- (?ct * s / (?L * ((s - ?L) * CMI self))) = ?ct * s / (?L * (?L - s)) / CMI self"
      using L cmi by (simp add: field_simps)
    with fl show ?thesis by simp
  qed
  have c0: "\<lceil>real_of_int (getMaxReservedPlenary self s) - streamMaxFrame\<rceil> = 0"
    if "\<not> real_of_int (getMaxReservedPlenary self s) - streamMaxFrame \<le> - 1"
    using that clamp by (simp add: ceiling_eq_iff)
  have alg: "(0 - ?ct * s / (s - ?L)) / s + ?ct * s / (?L * (s - ?L)) + ?ct / ?L = 2 * ?ct / ?L"
    using L s(1) by (intro burst_algebra) simp_all
  show ?thesis
    unfolding plenaryFasterMediaV2_def Let_def
    using L s(1) cmi alg
    by (simp add: n1 fl' c0)
qed

lemma clamp_mono:
  fixes t1 t2 b c :: real
  shows "t1 \<le> t2 \<Longrightarrow> b + max 0 t1 + c \<le> b + max 0 t2 + c"
    and "t1 < t2 \<Longrightarrow> 0 < t2 \<Longrightarrow> b + max 0 t1 + c < b + max 0 t2 + c"
    and "t1 \<le> 0 \<Longrightarrow> t2 \<le> 0 \<Longrightarrow> b + max 0 t1 + c = b + max 0 t2 + c"
  by (simp_all add: max_def)

text \<open>
  C4, as stated, fails: a larger idle slope does not give a smaller delay. With the
  default calculator and a stream frame of 6096 bits, raising the idle slope from
  48832000 to 80000000 raises both the Standard-BA delay and the
  Plenary-FasterMedia-v2 delay, and neither catch-up term is clamped.
\<close>

theorem idle_slope_increases_delay:
  "(0::real) < 48832000 \<and> (48832000::real) < 80000000
   \<and> baStandard ex_calculator 48832000 6096 = Inr (3494613 / 19075000000)
   \<and> baStandard ex_calculator 80000000 6096 = Inr (1449 / 6250000)
   \<and> (3494613 / 19075000000 :: real) < 1449 / 6250000
   \<and> plenaryFasterMediaV2 ex_calculator 48832000 6096 = Inr (4697101 / 19075000000)
   \<and> plenaryFasterMediaV2 ex_calculator 80000000 6096 = Inr (937 / 1562500)
   \<and> (4697101 / 19075000000 :: real) < 937 / 1562500"
  by (simp add: ex_calculator_def CBSLatencyCalculator_init_def baStandard_def
        plenaryFasterMediaV2_def getMaxReservedPlenary_def Let_def)

text \<open>
  C4, amended. Python floats are read as exact reals here: the delays compared below are
  the exact values of the expressions the code evaluates, not the rounded doubles it
  returns (for nearly equal idle slopes rounding can return equal or reversed values).
  For fixed other parameters, a link speed other than zero and idle slopes
  \<open>0 < s1 < s2\<close>: when the stream frame size is not negative, the \<open>baStandard\<close> delay at
  \<open>s2\<close> is greater than or equal to the delay at \<open>s1\<close>, strictly greater when the frame
  size is positive and the catch-up term \<open>(s2*CMI - streamMaxFrame)/s2\<close> is positive, and
  equal when the term is at most zero (clamped) at both slopes. For
  \<open>plenaryFasterMediaV2\<close> only the clamp case remains: at a link speed of 100 Mbit/s, with
  \<open>CMI > 0\<close>, \<open>ctMaxFrame \<ge> 0\<close> and \<open>s2 < linkspeed\<close>, when \<open>streamBits\<close> is clamped to zero
  at both slopes (\<open>maxReserved \<le> streamMaxFrame\<close>) and the burst is shorter than one CMI at
  both slopes (\<open>ctMaxFrame*s < CMI*linkspeed*(linkspeed - s)\<close>), both delays are
  \<open>2*ctMaxFrame/linkspeed\<close>.
\<close>

theorem idle_slope_monotonicity:
  assumes "LINKSPEED self \<noteq> 0" and "0 < s1" and "s1 < s2"
  shows "(0 \<le> streamMaxFrame \<longrightarrow>
           (\<exists>d1 d2. baStandard self s1 streamMaxFrame = Inr d1
                   \<and> baStandard self s2 streamMaxFrame = Inr d2
                   \<and> d1 \<le> d2
                   \<and> (0 < streamMaxFrame \<and> 0 < (s2 * CMI self - streamMaxFrame) / s2
                        \<longrightarrow> d1 < d2)
                   \<and> ((s1 * CMI self - streamMaxFrame) / s1 \<le> 0
                        \<and> (s2 * CMI self - streamMaxFrame) / s2 \<le> 0 \<longrightarrow> d1 = d2)))
         \<and> (LINKSPEED self = 100000000 \<and> 0 < CMI self \<and> 0 \<le> ctMaxFrame self
              \<and> s2 < LINKSPEED self
              \<and> of_int (getMaxReservedPlenary self s1) \<le> streamMaxFrame
              \<and> of_int (getMaxReservedPlenary self s2) \<le> streamMaxFrame
              \<and> of_int (ctMaxFrame self) * s1
                    < CMI self * (LINKSPEED self * (LINKSPEED self - s1))
              \<and> of_int (ctMaxFrame self) * s2
                    < CMI self * (LINKSPEED self * (LINKSPEED self - s2))
            \<longrightarrow> plenaryFasterMediaV2 self s1 streamMaxFrame
                    = Inr (2 * of_int (ctMaxFrame self) / LINKSPEED self)
                \<and> plenaryFasterMediaV2 self s2 streamMaxFrame
                    = Inr (2 * of_int (ctMaxFrame self) / LINKSPEED self))"
proof (intro conjI impI)
  assume m: "0 \<le> streamMaxFrame"
  let ?t1 = "(s1 * CMI self - streamMaxFrame) / s1"
  let ?t2 = "(s2 * CMI self - streamMaxFrame) / s2"
  let ?base = "of_int (ctMaxFrame self) / LINKSPEED self"
  let ?tail = "(streamMaxFrame - of_int (CBSLatencyCalculator.IFG self)) / LINKSPEED self"
  have v1: "baStandard self s1 streamMaxFrame = Inr (?base + max 0 ?t1 + ?tail)"
    using assms by (intro baStandard_value) simp_all
  have v2: "baStandard self s2 streamMaxFrame = Inr (?base + max 0 ?t2 + ?tail)"
    using assms by (intro baStandard_value) simp_all
  have le: "?t1 \<le> ?t2" using assms(2,3) m by (rule catch_up_mono)
  have a: "?base + max 0 ?t1 + ?tail \<le> ?base + max 0 ?t2 + ?tail"
    using le by (rule clamp_mono(1))
  have b: "?base + max 0 ?t1 + ?tail < ?base + max 0 ?t2 + ?tail"
    if "0 < streamMaxFrame \<and> 0 < ?t2"
  proof -
    from that have "?t1 < ?t2" using assms(2,3) by (intro catch_up_strict) simp_all
    moreover from that have "0 < ?t2" by (rule conjunct2)
    ultimately show ?thesis by (rule clamp_mono(2))
  qed
  have c: "?base + max 0 ?t1 + ?tail = ?base + max 0 ?t2 + ?tail"
    if "?t1 \<le> 0 \<and> ?t2 \<le> 0"
    using that [THEN conjunct1] that [THEN conjunct2] by (rule clamp_mono(3))
  show "\<exists>d1 d2. baStandard self s1 streamMaxFrame = Inr d1
                   \<and> baStandard self s2 streamMaxFrame = Inr d2
                   \<and> d1 \<le> d2
                   \<and> (0 < streamMaxFrame \<and> 0 < ?t2 \<longrightarrow> d1 < d2)
                   \<and> (?t1 \<le> 0 \<and> ?t2 \<le> 0 \<longrightarrow> d1 = d2)"
    using v1 v2 a b c by blast
next
  assume h: "LINKSPEED self = 100000000 \<and> 0 < CMI self \<and> 0 \<le> ctMaxFrame self
              \<and> s2 < LINKSPEED self
              \<and> of_int (getMaxReservedPlenary self s1) \<le> streamMaxFrame
              \<and> of_int (getMaxReservedPlenary self s2) \<le> streamMaxFrame
              \<and> of_int (ctMaxFrame self) * s1
                    < CMI self * (LINKSPEED self * (LINKSPEED self - s1))
              \<and> of_int (ctMaxFrame self) * s2
                    < CMI self * (LINKSPEED self * (LINKSPEED self - s2))"
  from h have ls: "LINKSPEED self = 100000000" and cmi: "0 < CMI self"
    and ct: "0 \<le> ctMaxFrame self" and lt: "s2 < LINKSPEED self"
    and cl: "of_int (getMaxReservedPlenary self s1) \<le> streamMaxFrame"
    and bu: "of_int (ctMaxFrame self) * s1 < CMI self * (LINKSPEED self * (LINKSPEED self - s1))"
    by blast+
  have "s1 < LINKSPEED self" using assms(3) lt by (rule less_trans)
  with ls cmi ct assms(2) show "plenaryFasterMediaV2 self s1 streamMaxFrame
                    = Inr (2 * of_int (ctMaxFrame self) / LINKSPEED self)"
    using cl bu by (rule plenaryFasterMediaV2_clamped)
next
  assume h: "LINKSPEED self = 100000000 \<and> 0 < CMI self \<and> 0 \<le> ctMaxFrame self
              \<and> s2 < LINKSPEED self
              \<and> of_int (getMaxReservedPlenary self s1) \<le> streamMaxFrame
              \<and> of_int (getMaxReservedPlenary self s2) \<le> streamMaxFrame
              \<and> of_int (ctMaxFrame self) * s1
                    < CMI self * (LINKSPEED self * (LINKSPEED self - s1))
              \<and> of_int (ctMaxFrame self) * s2
                    < CMI self * (LINKSPEED self * (LINKSPEED self - s2))"
  from h have ls: "LINKSPEED self = 100000000" and cmi: "0 < CMI self"
    and ct: "0 \<le> ctMaxFrame self" and lt: "s2 < LINKSPEED self"
    and cl: "of_int (getMaxReservedPlenary self s2) \<le> streamMaxFrame"
    and bu: "of_int (ctMaxFrame self) * s2 < CMI self * (LINKSPEED self * (LINKSPEED self - s2))"
    by blast+
  have "0 < s2" using assms(2,3) by (rule less_trans)
  with ls cmi ct show "plenaryFasterMediaV2 self s2 streamMaxFrame
                    = Inr (2 * of_int (ctMaxFrame self) / LINKSPEED self)"
    using lt cl bu by (rule plenaryFasterMediaV2_clamped)
qed

theorem idle_slope_monotonicity_witness:
  "LINKSPEED ex_calculator \<noteq> 0 \<and> (0::real) < 6144000 \<and> (6144000::real) < 8000000
   \<and> (8000000::real) < 80000000
   \<and> baStandard ex_calculator 6144000 6096 = Inr ((12304 + 6000) / 100000000)
   \<and> baStandard ex_calculator 8000000 6096 = Inr ((12304 + 6000) / 100000000)
   \<and> baStandard ex_calculator 80000000 6096 = Inr (1449 / 6250000)
   \<and> ((12304 + 6000) / 100000000 :: real) < 1449 / 6250000
   \<and> plenaryFasterMediaV2 ex_calculator 6144000 6096 = Inr (2 * 12304 / 100000000)
   \<and> plenaryFasterMediaV2 ex_calculator 8000000 6096 = Inr (2 * 12304 / 100000000)"
proof -
  have c: "LINKSPEED ex_calculator = 100000000" "CMI ex_calculator = 125 / 1000000"
    "ctMaxFrame ex_calculator = 12304" "CBSLatencyCalculator.IFG ex_calculator = 96"
    by (simp_all add: ex_calculator_def CBSLatencyCalculator_init_def)
  have ba: "baStandard ex_calculator 6144000 6096 = Inr ((12304 + 6000) / 100000000)"
       "baStandard ex_calculator 8000000 6096 = Inr ((12304 + 6000) / 100000000)"
       "baStandard ex_calculator 80000000 6096 = Inr (1449 / 6250000)"
    by (simp_all add: baStandard_def c)
  from idle_slope_monotonicity [of ex_calculator 6144000 8000000 6096]
  have "plenaryFasterMediaV2 ex_calculator 6144000 6096 = Inr (2 * 12304 / 100000000)
        \<and> plenaryFasterMediaV2 ex_calculator 8000000 6096 = Inr (2 * 12304 / 100000000)"
    by (simp add: c getMaxReservedPlenary_def)
  moreover from idle_slope_monotonicity [of ex_calculator 8000000 80000000 6096]
  have "((12304 + 6000) / 100000000 :: real) < 1449 / 6250000"
    by (simp add: c ba)
  ultimately show ?thesis using ba by (simp add: c)
qed

subsection \<open>Shortest paths\<close>

lemma directed_path_append:
  "directed_path u (xs @ ys) v = (\<exists>w. directed_path u xs w \<and> directed_path w ys v)"
  by (induction xs arbitrary: u) auto

lemma directed_path_snoc:
  "directed_path u (xs @ [l]) v = (directed_path u xs (Link.src l) \<and> Link.dst l = v)"
  by (auto simp: directed_path_append)

text \<open>A path that starts inside a set of nodes and ends outside has a first link leaving it.\<close>

lemma first_exit:
  assumes "directed_path u ls v" and "u \<in> D" and "v \<notin> D"
  shows "\<exists>ls1 l ls2. ls = ls1 @ l # ls2 \<and> directed_path u ls1 (Link.src l)
            \<and> Link.src l \<in> D \<and> Link.dst l \<notin> D"
  using assms
proof (induction ls arbitrary: u)
  case Nil
  then show ?case by simp
next
  case (Cons l ls)
  then have l: "Link.src l = u" "directed_path (Link.dst l) ls v" by simp_all
  show ?case
  proof (cases "Link.dst l \<in> D")
    case False
    with l Cons.prems(2) have "l # ls = [] @ l # ls \<and> directed_path u [] (Link.src l)
            \<and> Link.src l \<in> D \<and> Link.dst l \<notin> D" by simp
    then show ?thesis by blast
  next
    case True
    from Cons.IH [OF l(2) True Cons.prems(3)] obtain ls1 l' ls2 where
      x: "ls = ls1 @ l' # ls2" "directed_path (Link.dst l) ls1 (Link.src l')"
         "Link.src l' \<in> D" "Link.dst l' \<notin> D"
      by blast
    then have "l # ls = (l # ls1) @ l' # ls2 \<and> directed_path u (l # ls1) (Link.src l')
            \<and> Link.src l' \<in> D \<and> Link.dst l' \<notin> D"
      using l(1) by simp
    then show ?thesis by blast
  qed
qed

text \<open>Discovering a new node keeps the invariant of the scan.\<close>

lemma scan_new_node:
  assumes inv: "scan_inv net s current dc visited (unvisited, distances, previous)"
    and link: "link \<in> set (Network.links net)" "Link.src link = current"
    and new: "distances (Link.dst link) = None"
  shows "scan_inv net s current dc visited
           (unvisited @ [Link.dst link], distances(Link.dst link \<mapsto> dc + 1),
            previous(Link.dst link \<mapsto> current))"
proof -
  let ?v = "Link.dst link"
  let ?d = "distances(?v \<mapsto> dc + 1)"
  let ?p = "previous(?v \<mapsto> current)"
  from inv have dom: "dom distances = set visited \<union> set unvisited"
    and lb: "dist_lower_bound net s distances"
    and pt: "pred_tree net s distances previous"
    and cur: "current \<in> set visited" "distances current = Some dc"
    and vis: "\<forall>x \<in> set visited. \<exists>n. distances x = Some n \<and> n \<le> dc"
    and unv: "\<forall>y \<in> set unvisited. \<exists>n. distances y = Some n \<and> dc \<le> n \<and> n \<le> dc + 1"
    and srt: "sorted (map (\<lambda>y. the (distances y)) unvisited)"
    and cl: "edge_closed net (set visited - {current}) distances"
    by (simp_all add: scan_inv_def)
  from pt have s0: "distances s = Some 0"
    and nonneg: "\<And>v n. distances v = Some n \<Longrightarrow> 0 \<le> n"
    and pred: "\<And>v n. distances v = Some n \<Longrightarrow> v \<noteq> s \<Longrightarrow>
            \<exists>u l. previous v = Some u \<and> l \<in> set (Network.links net)
                 \<and> Link.src l = u \<and> Link.dst l = v \<and> distances u = Some (n - 1)"
    and dp: "\<And>v. previous v \<noteq> None \<Longrightarrow> distances v \<noteq> None"
    by (simp_all add: pred_tree_def)
  have vnot: "?v \<notin> set visited" "?v \<notin> set unvisited" "?v \<noteq> s" "?v \<noteq> current"
    using new dom s0 cur by auto
  have dc0: "0 \<le> dc" using nonneg cur(2) by simp
  have 1: "dom ?d = set visited \<union> set (unvisited @ [?v])"
    using dom by auto
  have 2: "dist_lower_bound net s ?d"
    unfolding dist_lower_bound_def
  proof (intro allI impI)
    fix w n ls
    assume w: "?d w = Some n" and sub: "set ls \<subseteq> set (Network.links net)"
      and path: "directed_path s ls w"
    show "n \<le> int (length ls)"
    proof (cases "w = ?v")
      case False
      with w have "distances w = Some n" by simp
      with lb sub path show ?thesis by (auto simp: dist_lower_bound_def)
    next
      case True
      with w have n: "n = dc + 1" by simp
      have "s \<in> dom distances" "w \<notin> dom distances" using s0 new True by auto
      from first_exit [OF path this] obtain ls1 l ls2 where
        x: "ls = ls1 @ l # ls2" "directed_path s ls1 (Link.src l)"
           "Link.src l \<in> dom distances" "Link.dst l \<notin> dom distances"
        by blast
      from x(3) obtain m where m: "distances (Link.src l) = Some m" by auto
      have "set ls1 \<subseteq> set (Network.links net)" "l \<in> set (Network.links net)"
        using sub x(1) by auto
      with lb m x(2) have le: "m \<le> int (length ls1)"
        by (auto simp: dist_lower_bound_def)
      have "dc \<le> m"
      proof (cases "Link.src l \<in> set visited")
        case True
        show ?thesis
        proof (cases "Link.src l = current")
          case True
          with m cur(2) show ?thesis by simp
        next
          case False
          with True cl \<open>l \<in> set (Network.links net)\<close> have "distances (Link.dst l) \<noteq> None"
            by (auto simp: edge_closed_def)
          with x(4) show ?thesis by auto
        qed
      next
        case False
        with x(3) dom have "Link.src l \<in> set unvisited" by auto
        with unv m show ?thesis by auto
      qed
      with le n x(1) show ?thesis by simp
    qed
  qed
  have 3: "pred_tree net s ?d ?p"
    unfolding pred_tree_def
  proof (intro conjI allI impI)
    show "?d s = Some 0" using s0 vnot(3) by simp
  next
    fix w n assume "?d w = Some n"
    then show "0 \<le> n" using nonneg dc0 by (cases "w = ?v") auto
  next
    fix w n assume w: "?d w = Some n" and ws: "w \<noteq> s"
    show "\<exists>u l. ?p w = Some u \<and> l \<in> set (Network.links net)
                 \<and> Link.src l = u \<and> Link.dst l = w \<and> ?d u = Some (n - 1)"
    proof (cases "w = ?v")
      case True
      with w have "n = dc + 1" by simp
      with True link cur(2) vnot(4) show ?thesis by auto
    next
      case False
      with w have "distances w = Some n" by simp
      from pred [OF this ws] obtain u l where
        u: "previous w = Some u" "l \<in> set (Network.links net)" "Link.src l = u"
           "Link.dst l = w" "distances u = Some (n - 1)"
        by blast
      then have "u \<noteq> ?v" using new by auto
      with u False show ?thesis by auto
    qed
  next
    fix w assume "?p w \<noteq> None"
    then show "?d w \<noteq> None" using dp by (cases "w = ?v") auto
  qed
  have 4: "current \<in> set visited \<and> ?d current = Some dc"
    using cur vnot(4) by simp
  have 5: "\<forall>x \<in> set visited. \<exists>n. ?d x = Some n \<and> n \<le> dc"
    using vis vnot(1) by auto
  have 6: "\<forall>y \<in> set (unvisited @ [?v]). \<exists>n. ?d y = Some n \<and> dc \<le> n \<and> n \<le> dc + 1"
    using unv vnot(2) by auto
  have meq: "map (\<lambda>y. the (?d y)) unvisited = map (\<lambda>y. the (distances y)) unvisited"
    using vnot(2) by (intro map_cong) auto
  have s1: "sorted (map (\<lambda>y. the (?d y)) unvisited)"
    unfolding meq by (rule srt)
  have "\<forall>y \<in> set unvisited. the (?d y) \<le> dc + 1"
    using unv vnot(2) by fastforce
  moreover have "the (?d ?v) = dc + 1" by simp
  ultimately have 7: "sorted (map (\<lambda>y. the (?d y)) (unvisited @ [?v]))"
    using s1 by (simp add: sorted_append del: fun_upd_apply)
  have 8: "edge_closed net (set visited - {current}) ?d"
    using cl by (auto simp: edge_closed_def)
  from 1 2 3 4 5 6 7 8 show ?thesis
    unfolding scan_inv_def by simp
qed

text \<open>The loop over the links keeps the invariant and closes the links of \<open>current\<close>.\<close>

lemma scan_links_inv:
  assumes "scan_inv net s current dc visited st" and "set ls \<subseteq> set (Network.links net)"
  shows "\<exists>unvisited' distances' previous'.
           calculateShortestPath_links ls current visited st
             = Inr (unvisited', distances', previous')
           \<and> scan_inv net s current dc visited (unvisited', distances', previous')
           \<and> (\<forall>l \<in> set ls. Link.src l = current \<longrightarrow> distances' (Link.dst l) \<noteq> None)
           \<and> (\<forall>v. fst (snd st) v \<noteq> None \<longrightarrow> distances' v \<noteq> None)"
  using assms
proof (induction ls arbitrary: st)
  case Nil
  obtain unvisited distances previous where st: "st = (unvisited, distances, previous)"
    by (cases st) auto
  with Nil show ?case by simp
next
  case (Cons link ls)
  obtain unvisited distances previous where st: "st = (unvisited, distances, previous)"
    by (cases st) auto
  from Cons.prems have inv: "scan_inv net s current dc visited (unvisited, distances, previous)"
    and lin: "link \<in> set (Network.links net)" and sub: "set ls \<subseteq> set (Network.links net)"
    by (simp_all add: st)
  from inv have dom: "dom distances = set visited \<union> set unvisited"
    and cur: "distances current = Some dc"
    by (simp_all add: scan_inv_def)
  show ?case
  proof (cases "Link.src link = current \<and> Link.dst link \<notin> set visited")
    case False
    have step: "calculateShortestPath_links (link # ls) current visited st
                = calculateShortestPath_links ls current visited st"
      by (simp only: st calculateShortestPath_links.simps if_not_P [OF False])
    from Cons.IH [OF Cons.prems(1) sub] obtain u' d' p' where
      r: "calculateShortestPath_links ls current visited st = Inr (u', d', p')"
         "scan_inv net s current dc visited (u', d', p')"
         "\<forall>l \<in> set ls. Link.src l = current \<longrightarrow> d' (Link.dst l) \<noteq> None"
         "\<forall>v. fst (snd st) v \<noteq> None \<longrightarrow> d' v \<noteq> None"
      by blast
    have "Link.src link = current \<longrightarrow> d' (Link.dst link) \<noteq> None"
    proof
      assume "Link.src link = current"
      with False have "Link.dst link \<in> set visited" by simp
      with dom have "distances (Link.dst link) \<noteq> None" by auto
      with r(4) show "d' (Link.dst link) \<noteq> None" by (simp add: st)
    qed
    with r step show ?thesis by auto
  next
    case True
    show ?thesis
    proof (cases "distances (Link.dst link) = None")
      case None: True
      let ?st1 = "(unvisited @ [Link.dst link], distances(Link.dst link \<mapsto> dc + 1),
                   previous(Link.dst link \<mapsto> current))"
      from None dom have "Link.dst link \<notin> set unvisited" by auto
      then have step: "calculateShortestPath_links (link # ls) current visited st
                = calculateShortestPath_links ls current visited ?st1"
        using None cur
        by (simp only: st calculateShortestPath_links.simps if_P [OF True]) simp
      have inv1: "scan_inv net s current dc visited ?st1"
        using inv lin True None by (intro scan_new_node) simp_all
      from Cons.IH [OF inv1 sub] obtain u' d' p' where
        r: "calculateShortestPath_links ls current visited ?st1 = Inr (u', d', p')"
           "scan_inv net s current dc visited (u', d', p')"
           "\<forall>l \<in> set ls. Link.src l = current \<longrightarrow> d' (Link.dst l) \<noteq> None"
           "\<forall>v. fst (snd ?st1) v \<noteq> None \<longrightarrow> d' v \<noteq> None"
        by blast
      from r(4) have grow: "\<forall>v. distances v \<noteq> None \<longrightarrow> d' v \<noteq> None"
        and here: "d' (Link.dst link) \<noteq> None"
        by (auto split: if_splits)
      with r(1,2,3) step show ?thesis by (auto simp: st)
    next
      case False
      with dom True have "Link.dst link \<in> set unvisited" by auto
      then have step: "calculateShortestPath_links (link # ls) current visited st
                = calculateShortestPath_links ls current visited st"
        using False
        by (simp only: st calculateShortestPath_links.simps if_P [OF True]) simp
      from Cons.IH [OF Cons.prems(1) sub] obtain u' d' p' where
        r: "calculateShortestPath_links ls current visited st = Inr (u', d', p')"
           "scan_inv net s current dc visited (u', d', p')"
           "\<forall>l \<in> set ls. Link.src l = current \<longrightarrow> d' (Link.dst l) \<noteq> None"
           "\<forall>v. fst (snd st) v \<noteq> None \<longrightarrow> d' v \<noteq> None"
        by blast
      from r(4) False have "d' (Link.dst link) \<noteq> None" by (simp add: st)
      with r step show ?thesis by auto
    qed
  qed
qed

text \<open>Taking the head of the queue.\<close>

lemma search_to_scan:
  assumes "search_inv net s (current # rest) visited distances previous"
  shows "\<exists>dc. scan_inv net s current dc (visited @ [current]) (rest, distances, previous)"
proof -
  from assms have dom: "dom distances = set visited \<union> set (current # rest)"
    and lb: "dist_lower_bound net s distances"
    and pt: "pred_tree net s distances previous"
    and srt: "sorted (map (\<lambda>y. the (distances y)) (current # rest))"
    and cl: "edge_closed net (set visited) distances"
    by (simp_all add: search_inv_def)
  from assms obtain k where
    vis: "\<forall>x \<in> set visited. \<exists>n. distances x = Some n \<and> n \<le> k"
    and unv: "\<forall>y \<in> set (current # rest). \<exists>n. distances y = Some n \<and> k \<le> n \<and> n \<le> k + 1"
    unfolding search_inv_def by blast
  from unv obtain dc where dc: "distances current = Some dc" "k \<le> dc" "dc \<le> k + 1"
    by auto
  have 1: "dom distances = set (visited @ [current]) \<union> set rest" using dom by auto
  have 5: "\<forall>x \<in> set (visited @ [current]). \<exists>n. distances x = Some n \<and> n \<le> dc"
    using vis dc by fastforce
  have 6: "\<forall>y \<in> set rest. \<exists>n. distances y = Some n \<and> dc \<le> n \<and> n \<le> dc + 1"
  proof
    fix y assume y: "y \<in> set rest"
    with unv obtain n where n: "distances y = Some n" "k \<le> n" "n \<le> k + 1" by auto
    from srt y have "the (distances current) \<le> the (distances y)" by auto
    with n dc show "\<exists>n. distances y = Some n \<and> dc \<le> n \<and> n \<le> dc + 1" by simp
  qed
  have 7: "sorted (map (\<lambda>y. the (distances y)) rest)" using srt by simp
  have 8: "edge_closed net (set (visited @ [current]) - {current}) distances"
    using cl by (auto simp: edge_closed_def)
  from 1 lb pt dc(1) 5 6 7 8 have
    "scan_inv net s current dc (visited @ [current]) (rest, distances, previous)"
    unfolding scan_inv_def by simp
  then show ?thesis ..
qed

text \<open>After the loop over the links, the invariant of the outer loop holds again.\<close>

lemma scan_to_search:
  assumes "scan_inv net s current dc visited (unvisited, distances, previous)"
    and "\<forall>l \<in> set (Network.links net). Link.src l = current \<longrightarrow> distances (Link.dst l) \<noteq> None"
  shows "search_inv net s unvisited visited distances previous"
proof -
  from assms(1) have
    vis: "\<forall>x \<in> set visited. \<exists>n. distances x = Some n \<and> n \<le> dc"
    and unv: "\<forall>y \<in> set unvisited. \<exists>n. distances y = Some n \<and> dc \<le> n \<and> n \<le> dc + 1"
    and cl: "edge_closed net (set visited - {current}) distances"
    by (simp_all add: scan_inv_def)
  from vis unv have "\<exists>k. (\<forall>x \<in> set visited. \<exists>n. distances x = Some n \<and> n \<le> k)
             \<and> (\<forall>y \<in> set unvisited. \<exists>n. distances y = Some n \<and> k \<le> n \<and> n \<le> k + 1)"
    by blast
  moreover have "edge_closed net (set visited) distances"
    using cl assms(2) by (auto simp: edge_closed_def)
  ultimately show ?thesis
    using assms(1) unfolding scan_inv_def search_inv_def by simp
qed

text \<open>The search returns, with all invariants and an empty queue.\<close>

lemma while_inv:
  assumes "search_inv net s unvisited visited distances previous"
  shows "\<exists>visited' distances' previous'.
           calculateShortestPath_while net unvisited visited distances previous
             = Inr (distances', previous')
           \<and> search_inv net s [] visited' distances' previous'"
  using assms
proof (induction net unvisited visited distances previous
       rule: calculateShortestPath_while.induct)
  case (1 self unvisited visited distances previous)
  show ?case
  proof (cases unvisited)
    case Nil
    with "1.prems" show ?thesis by auto
  next
    case (Cons current rest)
    from search_to_scan [OF "1.prems" [unfolded Cons]] obtain dc where
      sc: "scan_inv self s current dc (visited @ [current]) (rest, distances, previous)" ..
    from scan_links_inv [OF sc subset_refl] obtain u' d' p' where
      r: "calculateShortestPath_links (Network.links self) current (visited @ [current])
            (rest, distances, previous) = Inr (u', d', p')"
         "scan_inv self s current dc (visited @ [current]) (u', d', p')"
         "\<forall>l \<in> set (Network.links self). Link.src l = current \<longrightarrow> d' (Link.dst l) \<noteq> None"
      by blast
    have inv': "search_inv self s u' (visited @ [current]) d' p'"
      using r(2,3) by (rule scan_to_search)
    have r': "calculateShortestPath_links (Network.links self) current (visited @ [current])
            (remove1 current unvisited, distances, previous) = Inr (u', d', p')"
      using r(1) Cons by simp
    from "1.IH" [OF Cons r' refl refl inv'] obtain vf df pf where
      f: "calculateShortestPath_while self u' (visited @ [current]) d' p' = Inr (df, pf)"
         "search_inv self s [] vf df pf"
      by blast
    have "calculateShortestPath_while self unvisited visited distances previous = Inr (df, pf)"
      using Cons r' f(1) by (subst calculateShortestPath_while.simps) simp
    with f(2) show ?thesis by blast
  qed
qed

lemma closed_reach:
  assumes "edge_closed net (dom distances) distances"
    and "directed_path u ls v" and "set ls \<subseteq> set (Network.links net)"
    and "distances u \<noteq> None"
  shows "distances v \<noteq> None"
  using assms(2-4)
proof (induction ls arbitrary: u)
  case Nil
  then show ?case by simp
next
  case (Cons l ls)
  then have "Link.src l = u" "l \<in> set (Network.links net)" by simp_all
  with assms(1) Cons.prems(3) have d: "distances (Link.dst l) \<noteq> None"
    by (auto simp: edge_closed_def)
  have "directed_path (Link.dst l) ls v" "set ls \<subseteq> set (Network.links net)"
    using Cons.prems by simp_all
  from Cons.IH [OF this d] show ?case .
qed

lemma getLink_Some:
  assumes "l0 \<in> set (Network.links net)" and "Link.src l0 = u" and "Link.dst l0 = v"
  shows "\<exists>l. getLink net u v = Some l \<and> l \<in> set (Network.links net)
             \<and> Link.src l = u \<and> Link.dst l = v"
proof (cases "getLink net u v")
  case None
  with assms show ?thesis
    by (auto simp: getLink_def isLinkFor_def find_None_iff)
next
  case (Some l)
  then show ?thesis
    by (auto simp: getLink_def isLinkFor_def find_Some_iff)
qed

text \<open>
  \<open>getLink\<close> finds a link for every predecessor entry: the branch of the walk for a
  missing link is not taken.
\<close>

lemma walk_getLink:
  assumes "pred_tree net s distances previous" and "distances v = Some n" and "v \<noteq> s"
  shows "\<exists>u l. previous v = Some u \<and> getLink net u v = Some l"
proof -
  from assms obtain u l0 where "previous v = Some u" "l0 \<in> set (Network.links net)"
    "Link.src l0 = u" "Link.dst l0 = v"
    unfolding pred_tree_def by blast
  with getLink_Some [of l0 net u v] show ?thesis by blast
qed

text \<open>The walk back from a node at distance \<open>n\<close> returns after appending \<open>n\<close> links.\<close>

lemma walk_returns:
  assumes pt: "pred_tree net s distances previous"
    and "distances v = Some (int n)"
    and "\<forall>l \<in> set (h (Path.links p)). \<exists>m. distances (Link.dst l) = Some m \<and> int n < m"
  shows "\<exists>chain. calculateShortestPath_walk net previous s p v h
                   = Some (Inr (h(Path.links p := h (Path.links p) @ chain)))
           \<and> length chain = n \<and> set chain \<subseteq> set (Network.links net)
           \<and> directed_path s (rev chain) v"
  using assms(2,3)
proof (induction n arbitrary: v h)
  case 0
  have "v = s"
  proof (rule ccontr)
    assume "v \<noteq> s"
    with pt "0.prems"(1) obtain u where "distances u = Some (- 1)"
      unfolding pred_tree_def by fastforce
    with pt show False unfolding pred_tree_def by fastforce
  qed
  then have "calculateShortestPath_walk net previous s p v h = Some (Inr h)"
    by (subst calculateShortestPath_walk.simps) simp
  then have "calculateShortestPath_walk net previous s p v h
                   = Some (Inr (h(Path.links p := h (Path.links p) @ [])))
           \<and> length ([]::Link list) = 0 \<and> set [] \<subseteq> set (Network.links net)
           \<and> directed_path s (rev []) v"
    using \<open>v = s\<close> by simp
  then show ?case by blast
next
  case (Suc n)
  from pt have s0: "distances s = Some 0" unfolding pred_tree_def by simp
  with Suc.prems(1) have vs: "v \<noteq> s" by auto
  with pt Suc.prems(1) obtain u l0 where
    u: "previous v = Some u" "l0 \<in> set (Network.links net)" "Link.src l0 = u"
       "Link.dst l0 = v" "distances u = Some (int (Suc n) - 1)"
    unfolding pred_tree_def by blast
  from getLink_Some [OF u(2,3,4)] obtain l where
    l: "getLink net u v = Some l" "l \<in> set (Network.links net)" "Link.src l = u" "Link.dst l = v"
    by blast
  have du: "distances u = Some (int n)" using u(5) by simp
  let ?h1 = "h(Path.links p := h (Path.links p) @ [l])"
  have "find (\<lambda>x. isLinkFor x (Link.src l) (Link.dst l) False) (h (Path.links p)) = None"
    using Suc.prems l(4) by (fastforce simp: find_None_iff isLinkFor_def)
  then have add: "addLinks h p l = ?h1" by (simp add: addLinks_def)
  have step: "calculateShortestPath_walk net previous s p v h
                = calculateShortestPath_walk net previous s p u ?h1"
    using vs u(1) l(1) add by (subst calculateShortestPath_walk.simps) simp
  have "\<forall>x \<in> set (?h1 (Path.links p)). \<exists>m. distances (Link.dst x) = Some m \<and> int n < m"
    using Suc.prems l(4) by fastforce
  from Suc.IH [of u ?h1, OF du this] obtain chain where
    c: "calculateShortestPath_walk net previous s p u ?h1
          = Some (Inr (?h1(Path.links p := ?h1 (Path.links p) @ chain)))"
       "length chain = n" "set chain \<subseteq> set (Network.links net)"
       "directed_path s (rev chain) u"
    by blast
  have "calculateShortestPath_walk net previous s p v h
                   = Some (Inr (h(Path.links p := h (Path.links p) @ (l # chain))))
           \<and> length (l # chain) = Suc n \<and> set (l # chain) \<subseteq> set (Network.links net)
           \<and> directed_path s (rev (l # chain)) v"
    using step c l by (simp add: directed_path_snoc)
  then show ?case by blast
qed

lemma find_snoc: "find P xs = None \<Longrightarrow> P x \<Longrightarrow> find P (xs @ [x]) = Some x"
  by (induction xs) (auto split: if_splits)

lemma search_inv_init: "search_inv net s [s] [] [s \<mapsto> 0] Map.empty"
proof -
  have "dist_lower_bound net s [s \<mapsto> 0]"
    by (auto simp: dist_lower_bound_def split: if_splits)
  moreover have "pred_tree net s [s \<mapsto> 0] Map.empty"
    by (auto simp: pred_tree_def split: if_splits)
  moreover have "\<exists>k::int. (\<forall>x \<in> set []. \<exists>n. [s \<mapsto> 0] x = Some n \<and> n \<le> k)
             \<and> (\<forall>y \<in> set [s]. \<exists>n. [s \<mapsto> (0::int)] y = Some n \<and> k \<le> n \<and> n \<le> k + 1)"
    by (intro exI [of _ 0]) simp
  ultimately show ?thesis
    unfolding search_inv_def by (simp add: edge_closed_def)
qed

text \<open>
  The branch of the walk for a missing link is never taken after the search, from any
  node and for any store: a node with a predecessor has a distance, hence a link from
  its predecessor. The walk divides nothing.
\<close>

lemma walk_never_AttributeError:
  assumes "calculateShortestPath_walk net previous s p v h = Some r"
  shows "\<forall>distances. pred_tree net s distances previous \<longrightarrow> r \<noteq> Inl AttributeError"
proof (rule calculateShortestPath_walk.raw_induct
    [where P = "\<lambda>net previous s p v h r.
                  \<forall>distances. pred_tree net s distances previous \<longrightarrow> r \<noteq> Inl AttributeError",
     OF _ assms])
  fix walk net previous s p v h r
  assume IH: "\<And>net previous s p v h r. walk net previous s p v h = Some r \<Longrightarrow>
                \<forall>distances. pred_tree net s distances previous \<longrightarrow> r \<noteq> Inl AttributeError"
    and body: "(if v \<noteq> s
                then case previous v of
                       None \<Rightarrow> Some (Inl KeyError)
                     | Some u \<Rightarrow>
                        (case getLink net u v of
                           None \<Rightarrow> Some (Inl AttributeError)
                         | Some link \<Rightarrow> walk net previous s p u (addLinks h p link))
                else Some (Inr h)) = Some r"
  show "\<forall>distances. pred_tree net s distances previous \<longrightarrow> r \<noteq> Inl AttributeError"
  proof (intro allI impI)
    fix distances assume pt: "pred_tree net s distances previous"
    show "r \<noteq> Inl AttributeError"
    proof (cases "v \<noteq> s")
      case False
      with body show ?thesis by auto
    next
      case True
      show ?thesis
      proof (cases "previous v")
        case None
        with True body show ?thesis by auto
      next
        case (Some u)
        with pt obtain n where "distances v = Some n"
          unfolding pred_tree_def by fastforce
        from walk_getLink [OF pt this True] Some obtain l where
          l: "getLink net u v = Some l" by auto
        with True Some body have "walk net previous s p u (addLinks h p l) = Some r"
          by simp
        from IH [OF this] pt show ?thesis by blast
      qed
    qed
  qed
qed

lemma walk_never_ZeroDivisionError:
  assumes "calculateShortestPath_walk net previous s p v h = Some r"
  shows "r \<noteq> Inl ZeroDivisionError"
proof (rule calculateShortestPath_walk.raw_induct
    [where P = "\<lambda>net previous s p v h r. r \<noteq> Inl ZeroDivisionError", OF _ assms])
  fix walk net previous s p v h r
  assume IH: "\<And>net previous s p v h r. walk net previous s p v h = Some r \<Longrightarrow>
                r \<noteq> Inl ZeroDivisionError"
    and body: "(if v \<noteq> s
                then case previous v of
                       None \<Rightarrow> Some (Inl KeyError)
                     | Some u \<Rightarrow>
                        (case getLink net u v of
                           None \<Rightarrow> Some (Inl AttributeError)
                         | Some link \<Rightarrow> walk net previous s p u (addLinks h p link))
                else Some (Inr h)) = Some r"
  from body IH show "r \<noteq> Inl ZeroDivisionError"
    by (auto split: if_splits option.splits)
qed

text \<open>
  \<open>calculateShortestPath\<close> raises at most \<open>KeyError\<close>, at \<open>previous[current]\<close>:
  \<open>distances[current]\<close> never fails, and \<open>getLink\<close> always finds the link.
\<close>

lemma calculateShortestPath_raises_only_KeyError:
  assumes "calculateShortestPath net h s d = Some (Inl e)"
  shows "e = KeyError"
proof -
  from while_inv [OF search_inv_init [of net s]] obtain vf df pf where
    w: "calculateShortestPath_while net [s] [] [s \<mapsto> 0] Map.empty = Inr (df, pf)"
       "search_inv net s [] vf df pf"
    by blast
  from w(2) have pt: "pred_tree net s df pf" by (simp add: search_inv_def)
  from assms w(1) have walk: "calculateShortestPath_walk net pf s (Path_init s d) d h = Some (Inl e)"
    by (auto simp: calculateShortestPath_def Let_def split: option.splits sum.splits)
  from walk_never_AttributeError [OF walk] pt have "e \<noteq> AttributeError" by blast
  moreover from walk_never_ZeroDivisionError [OF walk] have "e \<noteq> ZeroDivisionError" by simp
  ultimately show ?thesis by (cases e) simp_all
qed

text \<open>
  C1, as stated, fails: a path that is cached for \<open>(src, dst)\<close> is returned as it is,
  also when the network has a shorter connection by now. In the example network the
  two-hop path from \<open>N0\<close> to \<open>N2\<close> is cached; after the direct link \<open>N0\<close> to \<open>N2\<close> is
  added, \<open>calculateShortestPath\<close> still returns the two links, and changes nothing.
\<close>

theorem stale_cache_not_shortest:
  "calculateShortestPath (addLink (network ex_analysis) ''N0'' ''N2'' 100000000 0 0)
     ex_store ''N0'' ''N2''
     = Some (Inr (\<lparr> Path.src = ''N0'', Path.dst = ''N2'', Path.links = 1 \<rparr>,
                  addLink (network ex_analysis) ''N0'' ''N2'' 100000000 0 0, ex_store))
   \<and> length (ex_store 1) = 2
   \<and> getLink (addLink (network ex_analysis) ''N0'' ''N2'' 100000000 0 0) ''N0'' ''N2''
       = Some \<lparr> Link.src = ''N0'', Link.dst = ''N2'', rate = 100000000, delay = 0, idleSlope = 0 \<rparr>
   \<and> directed_path ''N0''
         [\<lparr> Link.src = ''N0'', Link.dst = ''N2'', rate = 100000000, delay = 0, idleSlope = 0 \<rparr>]
         ''N2''
   \<and> length [\<lparr> Link.src = ''N0'', Link.dst = ''N2'', rate = 100000000, delay = 0,
                idleSlope = 0 \<rparr>] < length (ex_store 1)"
  by (simp add: calculateShortestPath_def lookupPath_def addLink_def getLink_def isLinkFor_def
        ex_analysis_def ex_store_def ex_link_def)

text \<open>
  C1, amended. For every network in which no path is cached for \<open>(src, dst)\<close>, with the
  default list of \<open>Path\<close> still empty, and every \<open>dst\<close> reachable from \<open>src\<close> over the
  registered directional links: \<open>calculateShortestPath\<close> returns (it raises nothing and
  it terminates) a path from \<open>src\<close> to \<open>dst\<close> whose links are registered links that, in
  the reverse of the order of collection (they are collected from \<open>dst\<close> back to \<open>src\<close>),
  form a directed path from \<open>src\<close> to \<open>dst\<close>, and whose number of links is the minimum
  over all directed paths from \<open>src\<close> to \<open>dst\<close>; the path is cached.
\<close>

theorem shortest_path_correct:
  assumes "lookupPath net s d = None"
    and "h Path_default_links = []"
    and "set ls0 \<subseteq> set (Network.links net)" and "directed_path s ls0 d"
  shows "\<exists>p net' h'. calculateShortestPath net h s d = Some (Inr (p, net', h'))
          \<and> Path.src p = s \<and> Path.dst p = d
          \<and> set (h' (Path.links p)) \<subseteq> set (Network.links net)
          \<and> directed_path s (rev (h' (Path.links p))) d
          \<and> (\<forall>ls. set ls \<subseteq> set (Network.links net) \<and> directed_path s ls d
                 \<longrightarrow> length (h' (Path.links p)) \<le> length ls)
          \<and> lookupPath net' s d = Some p"
proof -
  from while_inv [OF search_inv_init [of net s]] obtain vf df pf where
    w: "calculateShortestPath_while net [s] [] [s \<mapsto> 0] Map.empty = Inr (df, pf)"
       "search_inv net s [] vf df pf"
    by blast
  from w(2) have dom: "dom df = set vf" and lb: "dist_lower_bound net s df"
    and pt: "pred_tree net s df pf" and cl: "edge_closed net (set vf) df"
    by (simp_all add: search_inv_def)
  from pt have s0: "df s \<noteq> None" unfolding pred_tree_def by simp
  from cl dom have "edge_closed net (dom df) df" by simp
  from closed_reach [OF this assms(4,3) s0] obtain m where m: "df d = Some m" by auto
  with pt have "0 \<le> m" unfolding pred_tree_def by blast
  then have mn: "df d = Some (int (nat m))" using m by simp
  let ?p = "Path_init s d"
  have ref: "Path.links ?p = Path_default_links" by (simp add: Path_init_def)
  have "\<forall>l \<in> set (h (Path.links ?p)). \<exists>k. df (Link.dst l) = Some k \<and> int (nat m) < k"
    using assms(2) by (simp add: ref)
  from walk_returns [where h = h and p = ?p, OF pt mn this] obtain chain where
    c: "calculateShortestPath_walk net pf s ?p d h
          = Some (Inr (h(Path.links ?p := h (Path.links ?p) @ chain)))"
       "length chain = nat m" "set chain \<subseteq> set (Network.links net)"
       "directed_path s (rev chain) d"
    by blast
  let ?h' = "h(Path.links ?p := h (Path.links ?p) @ chain)"
  have hp: "?h' (Path.links ?p) = chain" using assms(2) by (simp add: ref)
  have run: "calculateShortestPath net h s d = Some (Inr (?p, addPath net ?p, ?h'))"
    using assms(1) w(1) c(1) by (simp add: calculateShortestPath_def Let_def)
  have min: "\<forall>ls. set ls \<subseteq> set (Network.links net) \<and> directed_path s ls d
                 \<longrightarrow> length (?h' (Path.links ?p)) \<le> length ls"
  proof (intro allI impI)
    fix ls assume "set ls \<subseteq> set (Network.links net) \<and> directed_path s ls d"
    with lb m have "m \<le> int (length ls)" unfolding dist_lower_bound_def by blast
    with c(2) show "length (?h' (Path.links ?p)) \<le> length ls" unfolding hp by simp
  qed
  have cached: "lookupPath (addPath net ?p) s d = Some ?p"
  proof -
    have "find (\<lambda>path. Path.src path = s \<and> Path.dst path = d) (paths net) = None"
      using assms(1) by (simp add: lookupPath_def)
    then have "find (\<lambda>path. Path.src path = s \<and> Path.dst path = d) (paths net @ [?p]) = Some ?p"
      by (rule find_snoc) (simp add: Path_init_def)
    moreover have "addPath net ?p = net\<lparr>paths := paths net @ [?p]\<rparr>"
      using assms(1) by (simp add: addPath_def Path_init_def)
    ultimately show ?thesis by (simp add: lookupPath_def)
  qed
  have "Path.src ?p = s" "Path.dst ?p = d" by (simp_all add: Path_init_def)
  with run c(3,4) min cached hp show ?thesis by (intro exI [of _ ?p] exI [of _ "addPath net ?p"] exI [of _ ?h']) simp
qed

theorem shortest_path_correct_witness:
  "lookupPath (network ex_analysis) ''N2'' ''N0'' = None
   \<and> ex_store Path_default_links = []
   \<and> set [ex_link ''N2'' ''S0'' 48832000, ex_link ''S0'' ''N0'' 48832000]
        \<subseteq> set (Network.links (network ex_analysis))
   \<and> directed_path ''N2'' [ex_link ''N2'' ''S0'' 48832000, ex_link ''S0'' ''N0'' 48832000] ''N0''
   \<and> calculateShortestPath (network ex_analysis) ex_store ''N2'' ''N0'' =
       Some (Inr (Path_init ''N2'' ''N0'',
                  addPath (network ex_analysis) (Path_init ''N2'' ''N0''),
                  ex_store(Path_default_links :=
                    [ex_link ''S0'' ''N0'' 48832000, ex_link ''N2'' ''S0'' 48832000])))
   \<and> (case calculateShortestPath (network ex_analysis) ex_store ''N2'' ''N0'' of
         Some (Inr (p, net', h')) \<Rightarrow>
           length (h' (Path.links p)) \<le> 2
           \<and> directed_path ''N2'' (rev (h' (Path.links p))) ''N0''
           \<and> lookupPath net' ''N2'' ''N0'' = Some p
       | _ \<Rightarrow> False)"
proof -
  have a: "lookupPath (network ex_analysis) ''N2'' ''N0'' = None"
    by (simp add: lookupPath_def ex_analysis_def)
  have b: "ex_store Path_default_links = []"
    by (simp add: ex_store_def Path_default_links_def)
  have c: "set [ex_link ''N2'' ''S0'' 48832000, ex_link ''S0'' ''N0'' 48832000]
        \<subseteq> set (Network.links (network ex_analysis))"
    by (simp add: ex_analysis_def)
  have d: "directed_path ''N2'' [ex_link ''N2'' ''S0'' 48832000, ex_link ''S0'' ''N0'' 48832000] ''N0''"
    by (simp add: ex_link_def)
  have e: "calculateShortestPath (network ex_analysis) ex_store ''N2'' ''N0'' =
       Some (Inr (Path_init ''N2'' ''N0'',
                  addPath (network ex_analysis) (Path_init ''N2'' ''N0''),
                  ex_store(Path_default_links :=
                    [ex_link ''S0'' ''N0'' 48832000, ex_link ''N2'' ''S0'' 48832000])))"
    by (simp add: calculateShortestPath_def lookupPath_def ex_analysis_def ex_store_def ex_link_def
        calculateShortestPath_walk.simps getLink_def isLinkFor_def addLinks_def Path_init_def
        Path_default_links_def Let_def)
  from shortest_path_correct [where h = ex_store, OF a b c d] obtain p net' h' where
    r: "calculateShortestPath (network ex_analysis) ex_store ''N2'' ''N0'' = Some (Inr (p, net', h'))"
       "directed_path ''N2'' (rev (h' (Path.links p))) ''N0''"
       "\<forall>ls. set ls \<subseteq> set (Network.links (network ex_analysis)) \<and> directed_path ''N2'' ls ''N0''
                 \<longrightarrow> length (h' (Path.links p)) \<le> length ls"
       "lookupPath net' ''N2'' ''N0'' = Some p"
    by blast
  from r(3) [rule_format, of "[ex_link ''N2'' ''S0'' 48832000, ex_link ''S0'' ''N0'' 48832000]"] c d
  have "length (h' (Path.links p)) \<le> 2" by simp
  with r(1,2,4) have "(case calculateShortestPath (network ex_analysis) ex_store ''N2'' ''N0'' of
         Some (Inr (p, net', h')) \<Rightarrow>
           length (h' (Path.links p)) \<le> 2
           \<and> directed_path ''N2'' (rev (h' (Path.links p))) ''N0''
           \<and> lookupPath net' ''N2'' ''N0'' = Some p
       | _ \<Rightarrow> False)"
    by simp
  with a b c d e show ?thesis by (intro conjI)
qed

text \<open>
  What the amended claim leaves out: the second path computed in a process. \<open>Path(src, dst)\<close>
  binds the new path to the list object that already holds the links of the first
  computed path, so after the call above the path computed for \<open>(N0, S0)\<close> has three
  links, where one link connects the two nodes.
\<close>

lemma shared_default_list_second_call:
  "calculateShortestPath
     (addPath (network ex_analysis) (Path_init ''N2'' ''N0''))
     (ex_store(Path_default_links :=
        [ex_link ''S0'' ''N0'' 48832000, ex_link ''N2'' ''S0'' 48832000]))
     ''N0'' ''S0''
   = Some (Inr (Path_init ''N0'' ''S0'',
                addPath (addPath (network ex_analysis) (Path_init ''N2'' ''N0''))
                  (Path_init ''N0'' ''S0''),
                ex_store(Path_default_links :=
                  [ex_link ''S0'' ''N0'' 48832000, ex_link ''N2'' ''S0'' 48832000,
                   ex_link ''N0'' ''S0'' 48832000])))"
  by (simp add: calculateShortestPath_def lookupPath_def addPath_def ex_analysis_def ex_store_def
        ex_link_def calculateShortestPath_walk.simps getLink_def isLinkFor_def addLinks_def
        Path_init_def Path_default_links_def Let_def)

end
